theory Spec2Isabelle
  imports Complex_Main "HOL-Library.AList"
begin

section \<open>The arXiv client of \<^verbatim>\<open>modules/arxiv.py\<close>\<close>

text \<open>
  The development embeds \<^verbatim>\<open>PaperData\<close> and \<^verbatim>\<open>ArxivClient\<close>: the two query
  builders, the JSON summary files, the ledger of seen papers, the paginated discovery loop
  of \<^verbatim>\<open>search_papers\<close>, the streaming \<^verbatim>\<open>search\<close>, and the single-paper lookups.
  A Python \<^verbatim>\<open>str\<close> is a \<^typ>\<open>string\<close>; a value whose type the code does not fix is a
  JSON value; a \<^verbatim>\<open>dict\<close> is a list of entries in insertion order. An exception that
  leaves a method is the \<^term>\<open>Inl\<close> branch of its result.
\<close>

subsection \<open>Strings\<close>

text \<open>\<^verbatim>\<open>sep.join(xs)\<close>.\<close>

fun join :: "string \<Rightarrow> string list \<Rightarrow> string" where
  "join sep [] = []"
| "join sep [x] = x"
| "join sep (x # y # ys) = x @ sep @ join sep (y # ys)"

text \<open>\<^verbatim>\<open>s.split(c)\<close> for a one-character separator: never the empty list.\<close>

fun split_chr :: "char \<Rightarrow> string \<Rightarrow> string list" where
  "split_chr c [] = [[]]"
| "split_chr c (x # xs) =
     (if x = c then [] # split_chr c xs
      else (case split_chr c xs of
              [] \<Rightarrow> [[x]]
            | y # ys \<Rightarrow> (x # y) # ys))"

text \<open>
  \<^verbatim>\<open>str.isspace\<close> on the code points below 256, and \<^verbatim>\<open>s.strip()\<close>, which removes
  such characters from both ends.
\<close>

definition isspace :: "char \<Rightarrow> bool" where
  "isspace c =
     (let n = (of_char c :: nat)
      in (9 \<le> n \<and> n \<le> 13) \<or> (28 \<le> n \<and> n \<le> 32) \<or> n = 133 \<or> n = 160)"

definition strip :: "string \<Rightarrow> string" where
  "strip s = rev (dropWhile isspace (rev (dropWhile isspace s)))"

definition startswith :: "string \<Rightarrow> string \<Rightarrow> bool" where
  "startswith s p = (take (length p) s = p)"

definition dquote :: string where
  "dquote = [CHR 0x22]"

subsection \<open>Values and PaperData\<close>

text \<open>
  The fields of a \<^verbatim>\<open>PaperData\<close> are annotated but not checked: \<^verbatim>\<open>cls(**data)\<close> stores
  whatever \<^verbatim>\<open>json.load\<close> read. A field therefore holds a JSON value as Python has it:
  \<^verbatim>\<open>None\<close>, a \<^verbatim>\<open>bool\<close>, an \<^verbatim>\<open>int\<close>, a \<^verbatim>\<open>str\<close>, a \<^verbatim>\<open>list\<close> or a \<^verbatim>\<open>dict\<close> with
  string keys, each key once. Numbers with a fraction or an exponent (Python floats) are
  left out.
\<close>

datatype jval =
    JNull
  | JBool bool
  | JInt int
  | JStr string
  | JList "jval list"
  | JObj "(string \<times> jval) list"

record PaperData =
  id' :: jval
  title :: jval
  url :: jval
  pdf_url :: jval
  doi :: jval
  comment :: jval
  published :: jval
  authors :: jval
  abstract :: jval
  keywords' :: jval
  summary :: jval
  categories :: jval

text \<open>Python's truth value.\<close>

fun truthy :: "jval \<Rightarrow> bool" where
  "truthy JNull = False"
| "truthy (JBool b) = b"
| "truthy (JInt n) = (n \<noteq> 0)"
| "truthy (JStr s) = (s \<noteq> [])"
| "truthy (JList l) = (l \<noteq> [])"
| "truthy (JObj d) = (d \<noteq> [])"

text \<open>\<^verbatim>\<open>asdict\<close> lists the fields in the order of their declaration.\<close>

definition to_dict :: "PaperData \<Rightarrow> jval" where
  "to_dict p =
     JObj [(''id'', id' p), (''title'', title p), (''url'', url p),
           (''pdf_url'', pdf_url p), (''doi'', doi p),
           (''comment'', comment p), (''published'', published p),
           (''authors'', authors p), (''abstract'', abstract p),
           (''keywords'', keywords' p), (''summary'', summary p),
           (''categories'', categories p)]"

datatype exn =
    ValueError
  | TypeError
  | AttributeError
  | ZeroDivisionError
  | UnicodeDecodeError
  | RecursionError
  | RemoteError string

definition field_names :: "string list" where
  "field_names = [''id'', ''title'', ''url'', ''pdf_url'', ''doi'', ''comment'', ''published'',
     ''authors'', ''abstract'', ''keywords'', ''summary'', ''categories'']"

text \<open>The value of a keyword argument, or the default \<^verbatim>\<open>None\<close> of the field.\<close>

definition field :: "(string \<times> jval) list \<Rightarrow> string \<Rightarrow> jval" where
  "field d k = (case map_of d k of Some v \<Rightarrow> v | None \<Rightarrow> JNull)"

text \<open>
  \<^verbatim>\<open>PaperData.from_dict(data)\<close> is \<^verbatim>\<open>cls(**data)\<close>: data that is not a \<^verbatim>\<open>dict\<close>, an
  unexpected key, or a missing \<^verbatim>\<open>id\<close>, \<^verbatim>\<open>title\<close> or \<^verbatim>\<open>url\<close>, is a \<^verbatim>\<open>TypeError\<close>;
  a missing optional field takes its default \<^verbatim>\<open>None\<close>; every value is stored as it is.
\<close>

fun from_dict :: "jval \<Rightarrow> exn + PaperData" where
  "from_dict (JObj d) =
     (if list_all (\<lambda>k. k \<in> set field_names) (map fst d)
         \<and> list_all (\<lambda>k. k \<in> set (map fst d)) [''id'', ''title'', ''url'']
      then Inr \<lparr> id' = field d ''id'',
                 title = field d ''title'',
                 url = field d ''url'',
                 pdf_url = field d ''pdf_url'',
                 doi = field d ''doi'',
                 comment = field d ''comment'',
                 published = field d ''published'',
                 authors = field d ''authors'',
                 abstract = field d ''abstract'',
                 keywords' = field d ''keywords'',
                 summary = field d ''summary'',
                 categories = field d ''categories'' \<rparr>
      else Inl TypeError)"
| "from_dict _ = Inl TypeError"

text \<open>
  The invariant of the data model: a record is enriched when its summary is not null and
  is not empty once the whitespace around it is removed.
\<close>

definition enriched :: "PaperData \<Rightarrow> bool" where
  "enriched p = (case summary p of JStr s \<Rightarrow> strip s \<noteq> [] | _ \<Rightarrow> False)"

text \<open>
  The keys of a \<^verbatim>\<open>dict\<close> are hashable values: of the values above, all but lists and
  dicts. Python compares \<^verbatim>\<open>True\<close> equal to \<^verbatim>\<open>1\<close> and \<^verbatim>\<open>False\<close> equal to \<^verbatim>\<open>0\<close>,
  also as keys.
\<close>

datatype key = KNone | KBool bool | KInt int | KStr string

fun as_key :: "jval \<Rightarrow> key option" where
  "as_key JNull = Some KNone"
| "as_key (JBool b) = Some (KBool b)"
| "as_key (JInt n) = Some (KInt n)"
| "as_key (JStr s) = Some (KStr s)"
| "as_key (JList l) = None"
| "as_key (JObj d) = None"

fun key_norm :: "key \<Rightarrow> key" where
  "key_norm (KBool b) = KInt (if b then 1 else 0)"
| "key_norm k = k"

text \<open>\<^verbatim>\<open>k in d\<close> and \<^verbatim>\<open>d[k] = v\<close> on a dict kept in insertion order.\<close>

definition dict_has :: "(key \<times> 'v) list \<Rightarrow> key \<Rightarrow> bool" where
  "dict_has d k = (key_norm k \<in> key_norm ` fst ` set d)"

fun dict_set :: "key \<Rightarrow> 'v \<Rightarrow> (key \<times> 'v) list \<Rightarrow> (key \<times> 'v) list" where
  "dict_set k v [] = [(k, v)]"
| "dict_set k v (e # d) =
     (if key_norm (fst e) = key_norm k then (fst e, v) # d else e # dict_set k v d)"

text \<open>\<^verbatim>\<open>str(n)\<close> for an \<^verbatim>\<open>int\<close>.\<close>

fun str_nat :: "nat \<Rightarrow> string" where
  "str_nat n =
     (if n < 10 then [char_of (48 + n)]
      else str_nat (n div 10) @ [char_of (48 + n mod 10)])"

definition str_int :: "int \<Rightarrow> string" where
  "str_int i = (if i < 0 then ''-'' @ str_nat (nat (- i)) else str_nat (nat i))"

text \<open>
  The key that \<^verbatim>\<open>json.dump\<close> writes for a key of a dict, and the dict that
  \<^verbatim>\<open>json.load\<close> reads back from the dump of a dict: a key written twice is read
  once, at its first place and with the later value.
\<close>

fun json_key :: "key \<Rightarrow> string" where
  "json_key KNone = ''null''"
| "json_key (KBool b) = (if b then ''true'' else ''false'')"
| "json_key (KInt n) = str_int n"
| "json_key (KStr s) = s"

definition dump_dict :: "(key \<times> jval) list \<Rightarrow> jval" where
  "dump_dict d =
     JObj (fold (\<lambda>e acc. AList.update (json_key (fst e)) (snd e) acc) d [])"

subsection \<open>The remote service, the file system and the client\<close>

text \<open>
  An \<^verbatim>\<open>arxiv.Result\<close>, with the attributes the client reads. \<^verbatim>\<open>hasattr\<close> is probed for
  \<^verbatim>\<open>pdf_url\<close>, \<^verbatim>\<open>published\<close>, \<^verbatim>\<open>doi\<close> and \<^verbatim>\<open>comment\<close>: such an attribute is
  \<^term>\<open>Missing\<close> or \<^term>\<open>Has\<close> a value. \<^verbatim>\<open>published\<close> holds the text that
  \<^verbatim>\<open>isoformat()\<close> returns, \<^verbatim>\<open>authors\<close> the names of the authors.
\<close>

datatype 'a attr = Missing | Has 'a

record Result =
  entry_id :: string
  title_r :: string
  summary_r :: string
  published_r :: "string attr"
  authors_r :: "string list"
  categories_r :: "string list"
  pdf_url_r :: "string option attr"
  doi_r :: "string option attr"
  comment_r :: "string option attr"

text \<open>
  \<^verbatim>\<open>arxiv.Search(query, id_list, max_results)\<close> with the \<^verbatim>\<open>offset\<close> the client
  sets on it. \<^verbatim>\<open>client.results(search)\<close> is a generator: it yields some results and
  then is exhausted or raises.
\<close>

datatype Search = Search string "string list" "int option" int

type_synonym results = "Result list \<times> exn option"

text \<open>\<^verbatim>\<open>list(gen)\<close> and \<^verbatim>\<open>next(gen)\<close>; \<^verbatim>\<open>StopIteration\<close> is \<^term>\<open>Inr None\<close>.\<close>

fun list_of :: "results \<Rightarrow> exn + Result list" where
  "list_of (rs, None) = Inr rs"
| "list_of (rs, Some e) = Inl e"

fun next_of :: "results \<Rightarrow> exn + Result option" where
  "next_of (r # rs, err) = Inr (Some r)"
| "next_of ([], None) = Inr None"
| "next_of ([], Some e) = Inl e"

text \<open>
  What the client does not control: the answers of the remote service, which paths
  \<^verbatim>\<open>open(path, 'w')\<close> can write (it raises \<^verbatim>\<open>IOError\<close> for the others; a path is
  taken to be one that \<^verbatim>\<open>open\<close> accepts, without a NUL character), and the text that
  \<^verbatim>\<open>str()\<close> gives for a list or a dict.
\<close>

record env =
  client_results :: "Search \<Rightarrow> results"
  can_write :: "string \<Rightarrow> bool"
  repr_of :: "jval \<Rightarrow> string"

text \<open>\<^verbatim>\<open>f"{x}"\<close>, that is \<^verbatim>\<open>str(x)\<close>.\<close>

fun py_str :: "env \<Rightarrow> jval \<Rightarrow> string" where
  "py_str E (JStr s) = s"
| "py_str E JNull = ''None''"
| "py_str E (JBool b) = (if b then ''True'' else ''False'')"
| "py_str E (JInt n) = str_int n"
| "py_str E v = repr_of E v"

text \<open>
  A file that exists, by what reading it does: \<^verbatim>\<open>open\<close> raises \<^verbatim>\<open>IOError\<close>;
  \<^verbatim>\<open>json.load\<close> raises \<^verbatim>\<open>JSONDecodeError\<close> (the text is not JSON),
  \<^verbatim>\<open>UnicodeDecodeError\<close> (the bytes are not text) or \<^verbatim>\<open>RecursionError\<close> (the value
  is nested too deeply); or \<^verbatim>\<open>json.load\<close> returns a value.
\<close>

datatype filedata = Unreadable | Garbage | NotText | TooDeep | Json jval

text \<open>
  The state: the \<^verbatim>\<open>seen_papers\<close> dict of the client in insertion order (a dict it
  is: \<^verbatim>\<open>__init__\<close> starts from \<^verbatim>\<open>{}\<close> or from the object in the ledger file), the
  files, and the requests sent to the remote service so far (kept for the claims that
  count them). A file is found under the text of its path: two paths that differ as texts
  are taken to name two files.
\<close>

record world =
  seen_papers :: "(key \<times> jval) list"
  disk :: "string \<rightharpoonup> filedata"
  requests :: "Search list"

definition SEEN_PAPERS_FILE :: string where
  "SEEN_PAPERS_FILE = ''seen_papers.json''"

definition SUMMARIES_DIR :: string where
  "SUMMARIES_DIR = ''paper_summaries''"

text \<open>\<^verbatim>\<open>os.path.join(a, b)\<close> on POSIX.\<close>

definition path_join :: "string \<Rightarrow> string \<Rightarrow> string" where
  "path_join a b =
     (if startswith b ''/'' then b
      else if a = [] \<or> last a = CHR ''/'' then a @ b
      else a @ ''/'' @ b)"

definition summary_filepath :: "string \<Rightarrow> string" where
  "summary_filepath paper_id = path_join SUMMARIES_DIR (paper_id @ ''.json'')"

text \<open>
  \<^verbatim>\<open>_save_seen_papers\<close>: the file then holds the dump of \<^verbatim>\<open>seen_papers\<close>; when
  \<^verbatim>\<open>open\<close> fails the method prints a warning.
\<close>

definition save_seen_papers :: "env \<Rightarrow> world \<Rightarrow> world" where
  "save_seen_papers E w =
     (if can_write E SEEN_PAPERS_FILE
      then w\<lparr>disk := (disk w)(SEEN_PAPERS_FILE \<mapsto> Json (dump_dict (seen_papers w)))\<rparr>
      else w)"

text \<open>
  \<^verbatim>\<open>_load_summary_from_file\<close>. The argument enters only through
  \<^verbatim>\<open>f"{paper_id}.json"\<close>, so the model takes its text. The \<^verbatim>\<open>except\<close> clause catches
  \<^verbatim>\<open>JSONDecodeError\<close> and \<^verbatim>\<open>IOError\<close> only: the other exceptions of
  \<^verbatim>\<open>json.load\<close> and the \<^verbatim>\<open>TypeError\<close> of \<^verbatim>\<open>from_dict\<close> leave the method.
\<close>

definition load_summary_from_file :: "world \<Rightarrow> string \<Rightarrow> exn + PaperData option" where
  "load_summary_from_file w paper_id =
     (case disk w (summary_filepath paper_id) of
        None \<Rightarrow> Inr None
      | Some Unreadable \<Rightarrow> Inr None
      | Some Garbage \<Rightarrow> Inr None
      | Some NotText \<Rightarrow> Inl UnicodeDecodeError
      | Some TooDeep \<Rightarrow> Inl RecursionError
      | Some (Json v) \<Rightarrow>
          (case from_dict v of
             Inl e \<Rightarrow> Inl e
           | Inr p \<Rightarrow> Inr (Some p)))"

text \<open>
  \<^verbatim>\<open>save_summary_to_file\<close> dumps \<^verbatim>\<open>to_dict()\<close> as JSON. The file is modelled by
  the value that \<^verbatim>\<open>json.load\<close> reads back from it: the values above pass through
  \<^verbatim>\<open>json.dump\<close> and \<^verbatim>\<open>json.load\<close> unchanged. A summary that is true and is not a
  string has no \<^verbatim>\<open>strip\<close>: \<^verbatim>\<open>AttributeError\<close>. When \<^verbatim>\<open>open\<close> fails the method
  prints a warning and writes nothing.
\<close>

definition save_summary_to_file :: "env \<Rightarrow> world \<Rightarrow> PaperData \<Rightarrow> exn + world" where
  "save_summary_to_file E w paper_data =
     (if \<not> truthy (summary paper_data) then Inr w
      else (case summary paper_data of
              JStr s \<Rightarrow>
                if \<not> truthy (JStr (strip s)) then Inr w
                else if can_write E (summary_filepath (py_str E (id' paper_data)))
                then Inr (w\<lparr>disk := (disk w)(summary_filepath (py_str E (id' paper_data)) \<mapsto>
                                 Json (to_dict paper_data))\<rparr>)
                else Inr w
            | _ \<Rightarrow> Inl AttributeError))"

text \<open>
  \<^verbatim>\<open>mark_papers_as_seen\<close>; \<open>current_date\<close> is what \<^verbatim>\<open>datetime.now().isoformat()\<close>
  returns during the call. An id that is a list or a dict cannot be a key:
  \<^verbatim>\<open>TypeError\<close>, after the papers before it were entered and before the file is written.
\<close>

fun mark_loop ::
  "string \<Rightarrow> PaperData list \<Rightarrow> (key \<times> jval) list \<Rightarrow> exn option \<times> (key \<times> jval) list" where
  "mark_loop current_date [] seen = (None, seen)"
| "mark_loop current_date (paper_data # papers) seen =
     (case as_key (id' paper_data) of
        None \<Rightarrow> (Some TypeError, seen)
      | Some k \<Rightarrow> mark_loop current_date papers (dict_set k (JStr current_date) seen))"

definition mark_papers_as_seen ::
  "env \<Rightarrow> string \<Rightarrow> world \<Rightarrow> PaperData list \<Rightarrow> exn option \<times> world" where
  "mark_papers_as_seen E current_date w papers =
     (case mark_loop current_date papers (seen_papers w) of
        (Some e, seen) \<Rightarrow> (Some e, w\<lparr>seen_papers := seen\<rparr>)
      | (None, seen) \<Rightarrow> (None, save_seen_papers E (w\<lparr>seen_papers := seen\<rparr>)))"

subsection \<open>Query construction\<close>

definition construct_query :: "string list option \<Rightarrow> string list option \<Rightarrow> string" where
  "construct_query search_terms cats =
     (let parts1 =
            (case cats of
               None \<Rightarrow> []
             | Some cs \<Rightarrow>
                 if cs = [] then []
                 else if length cs > 1
                 then [''('' @ join '' OR '' (map (\<lambda>cat. ''cat:'' @ cat) cs) @ '')'']
                 else [''cat:'' @ hd cs]);
          parts2 =
            (case search_terms of
               None \<Rightarrow> []
             | Some ts \<Rightarrow>
                 if ts = [] then []
                 else if length ts > 1
                 then [''('' @ join '' OR ''
                          (map (\<lambda>term. if CHR '' '' \<in> set term
                                        then ''%22'' @ term @ ''%22'' else term) ts) @ '')'']
                 else (if CHR '' '' \<in> set (hd ts)
                       then [''%22'' @ hd ts @ ''%22''] else [hd ts]))
      in join '' AND '' (parts1 @ parts2))"

text \<open>
  \<^verbatim>\<open>search\<close> takes untyped arguments and tests them with \<^verbatim>\<open>isinstance\<close>: an argument
  is \<^verbatim>\<open>None\<close>, a string or a list of strings. Its query is built in place (the first
  part of its body).
\<close>

datatype arg = PyNone | PyStr string | PyList "string list"

definition search_query :: "arg \<Rightarrow> arg \<Rightarrow> string" where
  "search_query search_terms cats =
     (let parts1 =
            (case cats of
               PyList cs \<Rightarrow>
                 if cs = [] then []
                 else if length cs > 1
                 then [''('' @ join '' OR '' (map (\<lambda>cat. ''cat:'' @ cat) cs) @ '')'']
                 else [join '' OR '' (map (\<lambda>cat. ''cat:'' @ cat) cs)]
             | _ \<Rightarrow> []);
          parts2 =
            (case search_terms of
               PyNone \<Rightarrow> []
             | PyList ts \<Rightarrow>
                 if ts = [] then []
                 else [''('' @ join '' OR ''
                          (map (\<lambda>term. if CHR '' '' \<in> set term
                                        then dquote @ term @ dquote else term) ts) @ '')'']
             | PyStr t \<Rightarrow>
                 if t = [] then []
                 else if CHR '' '' \<in> set t then [dquote @ t @ dquote] else [t])
      in join '' AND '' (parts1 @ parts2))"

subsection \<open>Conversion and cache reuse\<close>

text \<open>
  \<^verbatim>\<open>_convert_result\<close>. A \<^verbatim>\<open>pdf_url\<close> attribute that is present and \<^verbatim>\<open>None\<close> makes
  \<^verbatim>\<open>pdf_url.startswith\<close> raise \<^verbatim>\<open>AttributeError\<close>.
\<close>

definition arxiv_id_of :: "Result \<Rightarrow> string" where
  "arxiv_id_of r = last (split_chr CHR ''/'' (entry_id r))"

fun opt_str :: "string option \<Rightarrow> jval" where
  "opt_str None = JNull"
| "opt_str (Some s) = JStr s"

definition str_list :: "string list \<Rightarrow> jval" where
  "str_list l = JList (map JStr l)"

definition convert_result :: "Result \<Rightarrow> exn + PaperData" where
  "convert_result r =
     (let arxiv_id = arxiv_id_of r;
          pdf = (case pdf_url_r r of
                   Has v \<Rightarrow> v
                 | Missing \<Rightarrow> Some (''https://arxiv.org/pdf/'' @ arxiv_id @ ''.pdf''))
      in case pdf of
           None \<Rightarrow> Inl AttributeError
         | Some u \<Rightarrow>
             Inr \<lparr> id' = JStr arxiv_id,
                   title = JStr (title_r r),
                   url = JStr (entry_id r),
                   pdf_url = JStr (if startswith u ''http:'' then ''https'' @ drop 4 u else u),
                   doi = (case doi_r r of Has v \<Rightarrow> opt_str v | Missing \<Rightarrow> JNull),
                   comment = (case comment_r r of Has v \<Rightarrow> opt_str v | Missing \<Rightarrow> JNull),
                   published = (case published_r r of Has v \<Rightarrow> JStr v | Missing \<Rightarrow> JNull),
                   authors = str_list (authors_r r),
                   abstract = JStr (summary_r r),
                   keywords' = str_list (categories_r r),
                   summary = JNull,
                   categories = str_list (categories_r r) \<rparr>)"

text \<open>
  The step that \<^verbatim>\<open>search_papers\<close> and \<^verbatim>\<open>search\<close> both take for a paper that is not
  seen: the summary file is tried first, and the cached record is taken when its
  \<^verbatim>\<open>summary\<close> is true in Python's sense; otherwise the result is converted.
\<close>

definition load_or_convert :: "world \<Rightarrow> Result \<Rightarrow> exn + PaperData" where
  "load_or_convert w paper =
     (case load_summary_from_file w (arxiv_id_of paper) of
        Inl e \<Rightarrow> Inl e
      | Inr None \<Rightarrow> convert_result paper
      | Inr (Some existing_summary_paper) \<Rightarrow>
          if truthy (summary existing_summary_paper)
          then Inr existing_summary_paper
          else convert_result paper)"

text \<open>
  Whether a value is a key of \<^verbatim>\<open>seen_papers\<close>, and the test
  \<^verbatim>\<open>paper_id in self.seen_papers\<close> of the code, where \<^verbatim>\<open>paper_id\<close> is a string.
\<close>

definition in_ledger :: "world \<Rightarrow> jval \<Rightarrow> bool" where
  "in_ledger w v = (case as_key v of None \<Rightarrow> False | Some k \<Rightarrow> dict_has (seen_papers w) k)"

definition is_seen :: "world \<Rightarrow> string \<Rightarrow> bool" where
  "is_seen w paper_id = dict_has (seen_papers w) (KStr paper_id)"

subsection \<open>The pagination loop of \<^verbatim>\<open>search_papers\<close>\<close>

text \<open>
  The \<^verbatim>\<open>for paper in results\<close> loop over one page. Its state is \<^verbatim>\<open>found_papers\<close>,
  \<^verbatim>\<open>seen_in_this_run\<close> and \<^verbatim>\<open>new_papers_in_batch\<close>; the fourth component is the
  exception that ended it, which the enclosing \<^verbatim>\<open>try\<close> catches.
\<close>

fun page_loop ::
  "world \<Rightarrow> int \<Rightarrow> Result list \<Rightarrow> PaperData list \<times> string set \<times> nat
     \<Rightarrow> PaperData list \<times> string set \<times> nat \<times> exn option" where
  "page_loop w mx [] (found, run, n) = (found, run, n, None)"
| "page_loop w mx (paper # rest) (found, run, n) =
     (if is_seen w (arxiv_id_of paper) \<or> arxiv_id_of paper \<in> run
      then page_loop w mx rest (found, run, n)
      else (case load_or_convert w paper of
              Inl e \<Rightarrow> (found, run, n, Some e)
            | Inr paper_data \<Rightarrow>
                if int (length (found @ [paper_data])) \<ge> mx
                then (found @ [paper_data], insert (arxiv_id_of paper) run, Suc n, None)
                else page_loop w mx rest
                       (found @ [paper_data], insert (arxiv_id_of paper) run, Suc n)))"

text \<open>
  The variables of the \<^verbatim>\<open>while\<close> loop, and \<open>issued\<close>: the page requests sent so far.
\<close>

record loop_state =
  found_papers :: "PaperData list"
  seen_in_this_run :: "string set"
  start_index :: int
  consecutive_seen_requests :: nat
  issued :: "Search list"

datatype step = Raises exn loop_state | Break loop_state | Next loop_state

definition loop_cond :: "int \<Rightarrow> loop_state \<Rightarrow> bool" where
  "loop_cond mx s =
     (int (length (found_papers s)) < mx \<and> consecutive_seen_requests s < 3)"

text \<open>
  One pass through the body of the \<^verbatim>\<open>while\<close> loop. The progress message divides by
  \<^verbatim>\<open>request_size\<close> before the \<^verbatim>\<open>try\<close>, so a page size of zero raises out of the
  method. Inside the \<^verbatim>\<open>try\<close>, every exception ends the loop: a failed fetch, a failed
  conversion, and \<^verbatim>\<open>time.sleep\<close> of a negative delay.
\<close>

definition loop_body ::
  "env \<Rightarrow> world \<Rightarrow> string \<Rightarrow> int \<Rightarrow> int \<Rightarrow> rat \<Rightarrow> loop_state \<Rightarrow> step" where
  "loop_body E w q mx request_size timeout_seconds s =
     (if request_size = 0 then Raises ZeroDivisionError s
      else
        let req = Search q [] (Some request_size) (start_index s);
            s1 = s\<lparr>issued := issued s @ [req]\<rparr>
        in case list_of (client_results E req) of
             Inl e \<Rightarrow> Break s1
           | Inr rs \<Rightarrow>
               if rs = [] then Break s1
               else
                 (case page_loop w mx rs (found_papers s, seen_in_this_run s, 0) of
                    (found, run, n, Some e) \<Rightarrow>
                      Break (s1\<lparr>found_papers := found, seen_in_this_run := run\<rparr>)
                  | (found, run, n, None) \<Rightarrow>
                      let s2 = s1\<lparr>found_papers := found,
                                  seen_in_this_run := run,
                                  start_index := start_index s + request_size,
                                  consecutive_seen_requests :=
                                    (if n = 0 then consecutive_seen_requests s + 1 else 0)\<rparr>
                      in if loop_cond mx s2 \<and> timeout_seconds < 0 then Break s2 else Next s2))"

text \<open>
  The \<^verbatim>\<open>while\<close> loop. It ends: a pass that goes on either accepts a paper, or raises the
  count of consecutive pages without a new paper, which is below three.
\<close>

function while_loop ::
  "env \<Rightarrow> world \<Rightarrow> string \<Rightarrow> int \<Rightarrow> int \<Rightarrow> rat \<Rightarrow> loop_state \<Rightarrow> exn option \<times> loop_state" where
  "while_loop E w q mx request_size timeout_seconds s =
     (if loop_cond mx s
      then (case loop_body E w q mx request_size timeout_seconds s of
              Raises e s' \<Rightarrow> (Some e, s')
            | Break s' \<Rightarrow> (None, s')
            | Next s' \<Rightarrow> while_loop E w q mx request_size timeout_seconds s')
      else (None, s))"
  by pat_completeness auto

lemma page_loop_length:
  "page_loop w mx rs (f, r, n) = (f', r', n', e) \<Longrightarrow> length f' + n = length f + n'"
proof (induction rs arbitrary: f r n)
  case Nil
  then show ?case by simp
next
  case (Cons paper rest)
  show ?case
  proof (cases "is_seen w (arxiv_id_of paper) \<or> arxiv_id_of paper \<in> r")
    case True
    with Cons.prems have "page_loop w mx rest (f, r, n) = (f', r', n', e)" by simp
    then show ?thesis by (rule Cons.IH)
  next
    case False
    show ?thesis
    proof (cases "load_or_convert w paper")
      case (Inl x)
      with False Cons.prems show ?thesis by simp
    next
      case (Inr pd)
      show ?thesis
      proof (cases "int (length (f @ [pd])) \<ge> mx")
        case True
        with False Inr Cons.prems show ?thesis by auto
      next
        case False2: False
        with False Inr Cons.prems
        have "page_loop w mx rest (f @ [pd], insert (arxiv_id_of paper) r, Suc n) = (f', r', n', e)"
          by simp
        from Cons.IH [OF this] show ?thesis by simp
      qed
    qed
  qed
qed

lemma loop_body_Next_decreases:
  assumes "loop_body E w q mx request_size timeout_seconds s = Next s'"
    and "loop_cond mx s"
  shows "4 * nat (mx - int (length (found_papers s'))) + (3 - consecutive_seen_requests s')
       < 4 * nat (mx - int (length (found_papers s))) + (3 - consecutive_seen_requests s)"
proof -
  from assms(1) obtain rs found run n where
    pl: "page_loop w mx rs (found_papers s, seen_in_this_run s, 0) = (found, run, n, None)"
    and f': "found_papers s' = found"
    and c': "consecutive_seen_requests s' = (if n = 0 then consecutive_seen_requests s + 1 else 0)"
    by (auto simp: loop_body_def Let_def split: if_splits sum.splits prod.splits option.splits)
  from page_loop_length [OF pl] have len: "length found = length (found_papers s) + n"
    by simp
  show ?thesis
  proof (cases "n = 0")
    case True
    with len f' c' assms(2) show ?thesis
      unfolding loop_cond_def by auto
  next
    case False
    with len f' c' assms(2) show ?thesis
      unfolding loop_cond_def by auto
  qed
qed

termination while_loop
proof (relation "measure (\<lambda>(E, w, q, mx, request_size, timeout_seconds, s).
    4 * nat (mx - int (length (found_papers s))) + (3 - consecutive_seen_requests s))")
  show "wf (measure (\<lambda>(E :: env, w :: world, q :: string, mx, request_size :: int,
      timeout_seconds :: rat, s).
    4 * nat (mx - int (length (found_papers s))) + (3 - consecutive_seen_requests s)))"
    by simp
next
  fix E :: env and w :: world and q :: string and mx request_size :: int
    and timeout_seconds :: rat and s s' :: loop_state
  assume "loop_cond mx s"
    and "loop_body E w q mx request_size timeout_seconds s = Next s'"
  then show "((E, w, q, mx, request_size, timeout_seconds, s'),
              (E, w, q, mx, request_size, timeout_seconds, s))
      \<in> measure (\<lambda>(E, w, q, mx, request_size, timeout_seconds, s).
          4 * nat (mx - int (length (found_papers s))) + (3 - consecutive_seen_requests s))"
    using loop_body_Next_decreases by simp
qed

declare while_loop.simps [simp del]

definition init_state :: loop_state where
  "init_state = \<lparr> found_papers = [], seen_in_this_run = {}, start_index = 0,
                   consecutive_seen_requests = 0, issued = [] \<rparr>"


subsection \<open>\<^verbatim>\<open>search_papers\<close>\<close>

text \<open>
  What follows the loop: the accepted papers are marked as seen and returned. An exception
  that left the loop leaves the method, and nothing is marked; so does an exception of
  \<^verbatim>\<open>mark_papers_as_seen\<close>, which is called outside the \<^verbatim>\<open>try\<close>.
\<close>

definition finish ::
  "env \<Rightarrow> string \<Rightarrow> world \<Rightarrow> exn option \<times> loop_state \<Rightarrow> (exn + PaperData list) \<times> world" where
  "finish E current_date w out =
     (let w1 = w\<lparr>requests := requests w @ issued (snd out)\<rparr>
      in case fst out of
           Some e \<Rightarrow> (Inl e, w1)
         | None \<Rightarrow>
             (case mark_papers_as_seen E current_date w1 (found_papers (snd out)) of
                (Some e, w2) \<Rightarrow> (Inl e, w2)
              | (None, w2) \<Rightarrow> (Inr (found_papers (snd out)), w2)))"

definition search_papers ::
  "env \<Rightarrow> string \<Rightarrow> world \<Rightarrow> string list option \<Rightarrow> string list option \<Rightarrow> int \<Rightarrow> int \<Rightarrow> rat
     \<Rightarrow> (exn + PaperData list) \<times> world" where
  "search_papers E current_date w search_terms cats max_results request_size timeout_seconds =
     (let q = construct_query search_terms cats
      in if q = [] then (Inr [], w)
         else finish E current_date w
                (while_loop E w q max_results request_size timeout_seconds init_state))"

definition search_interpretability_papers ::
  "env \<Rightarrow> string \<Rightarrow> world \<Rightarrow> int \<Rightarrow> int \<Rightarrow> rat \<Rightarrow> (exn + PaperData list) \<times> world" where
  "search_interpretability_papers E current_date w max_results request_size timeout_seconds =
     search_papers E current_date w (Some [''mechanistic interpretability''])
       (Some [''cs.AI'', ''cs.LG'', ''cs.CL'']) max_results request_size timeout_seconds"

subsection \<open>\<^verbatim>\<open>search\<close>\<close>

text \<open>
  The loop of \<^verbatim>\<open>search\<close> draws from the generator, so an exception of the remote service
  after the last result drawn is never met; one met while drawing leaves the method.
\<close>

fun stream_loop ::
  "world \<Rightarrow> int \<Rightarrow> Result list \<Rightarrow> exn option \<Rightarrow> PaperData list \<times> string set
     \<Rightarrow> exn + PaperData list" where
  "stream_loop w mx [] err (found, run) =
     (case err of Some e \<Rightarrow> Inl e | None \<Rightarrow> Inr found)"
| "stream_loop w mx (paper # rest) err (found, run) =
     (if is_seen w (arxiv_id_of paper) \<or> arxiv_id_of paper \<in> run
      then stream_loop w mx rest err (found, run)
      else (case load_or_convert w paper of
              Inl e \<Rightarrow> Inl e
            | Inr paper_data \<Rightarrow>
                if int (length (found @ [paper_data])) \<ge> mx
                then Inr (found @ [paper_data])
                else stream_loop w mx rest err
                       (found @ [paper_data], insert (arxiv_id_of paper) run)))"

definition search ::
  "env \<Rightarrow> string \<Rightarrow> world \<Rightarrow> arg \<Rightarrow> arg \<Rightarrow> int \<Rightarrow> (exn + PaperData list) \<times> world" where
  "search E current_date w search_terms cats max_results =
     (let q = search_query search_terms cats;
          req = Search q [] (Some 100) 0;
          w1 = w\<lparr>requests := requests w @ [req]\<rparr>
      in case stream_loop w max_results (fst (client_results E req))
                (snd (client_results E req)) ([], {}) of
           Inl e \<Rightarrow> (Inl e, w1)
         | Inr found \<Rightarrow>
             (case mark_papers_as_seen E current_date w1 found of
                (Some e, w2) \<Rightarrow> (Inl e, w2)
              | (None, w2) \<Rightarrow> (Inr found, w2)))"

subsection \<open>Single papers\<close>

definition mark_one :: "env \<Rightarrow> string \<Rightarrow> world \<Rightarrow> string \<Rightarrow> world" where
  "mark_one E current_date w paper_id =
     (if is_seen w paper_id then w
      else save_seen_papers E
             (w\<lparr>seen_papers := dict_set (KStr paper_id) (JStr current_date) (seen_papers w)\<rparr>))"

definition get_paper_by_id ::
  "env \<Rightarrow> string \<Rightarrow> world \<Rightarrow> string \<Rightarrow> (exn + PaperData option) \<times> world" where
  "get_paper_by_id E current_date w paper_id =
     (case load_summary_from_file w paper_id of
        Inl e \<Rightarrow> (Inl e, w)
      | Inr existing \<Rightarrow>
          if (case existing of None \<Rightarrow> False | Some p \<Rightarrow> truthy (summary p))
          then (Inr existing, mark_one E current_date w paper_id)
          else
            let req = Search [] [paper_id] None 0;
                w1 = w\<lparr>requests := requests w @ [req]\<rparr>
            in case next_of (client_results E req) of
                 Inl e \<Rightarrow> (Inl e, w1)
               | Inr None \<Rightarrow> (Inr None, w1)
               | Inr (Some r) \<Rightarrow>
                   (case convert_result r of
                      Inl e \<Rightarrow> (Inl e, w1)
                    | Inr paper_data \<Rightarrow>
                        (Inr (Some paper_data), mark_one E current_date w1 paper_id)))"

definition get_pdf_url :: "env \<Rightarrow> string \<Rightarrow> world \<Rightarrow> string \<Rightarrow> (exn + jval) \<times> world" where
  "get_pdf_url E current_date w paper_id =
     (case get_paper_by_id E current_date w paper_id of
        (Inl e, w') \<Rightarrow> (Inl e, w')
      | (Inr None, w') \<Rightarrow> (Inl ValueError, w')
      | (Inr (Some paper), w') \<Rightarrow>
          if truthy (pdf_url paper) then (Inr (pdf_url paper), w')
          else (Inl ValueError, w'))"

subsection \<open>The summary files as a cache\<close>

text \<open>
  \<^verbatim>\<open>save_summary_to_file\<close> writes a record to the file named after the record's own
  id. A cache is consistent when every summary file that the client would reuse is of this
  kind: the record it holds, when its summary is true, has the id of the file's name.
\<close>

definition cache_consistent :: "world \<Rightarrow> bool" where
  "cache_consistent w =
     (\<forall>k v p. disk w (summary_filepath k) = Some (Json v) \<longrightarrow>
        from_dict v = Inr p \<longrightarrow> truthy (summary p) \<longrightarrow> id' p = JStr k)"

subsection \<open>Notions for reasoning about the loop\<close>

text \<open>
  The invariant of the loop: the ids of the accepted records are the ids noted in
  \<^verbatim>\<open>seen_in_this_run\<close>, they are distinct, and none is in the ledger.
\<close>

definition run_inv :: "world \<Rightarrow> PaperData list \<Rightarrow> string set \<Rightarrow> bool" where
  "run_inv w f run =
     (id' ` set f = JStr ` run \<and> distinct (map id' f)
      \<and> (\<forall>p \<in> set f. \<not> in_ledger w (id' p)))"

text \<open>
  The state after a page that was processed to its end: \<open>n\<close> is the number of papers
  the page gave.
\<close>

definition page_done :: "loop_state \<Rightarrow> Search \<Rightarrow> PaperData list \<Rightarrow> string set \<Rightarrow> int \<Rightarrow> nat \<Rightarrow> loop_state" where
  "page_done s req f r rs n =
     s\<lparr>issued := issued s @ [req], found_papers := f, seen_in_this_run := r,
       start_index := start_index s + rs,
       consecutive_seen_requests := (if n = 0 then consecutive_seen_requests s + 1 else 0)\<rparr>"

subsection \<open>Sample data\<close>

text \<open>Two results of the remote service, and records for the first one.\<close>

definition paper_a :: Result where
  "paper_a = \<lparr> entry_id = ''http://arxiv.org/abs/2401.00001v1'',
               title_r = ''Paper A'',
               summary_r = ''Abstract of A.'',
               published_r = Has ''2024-01-01T00:00:00+00:00'',
               authors_r = [''Ada''],
               categories_r = [''cs.AI'', ''cs.LG''],
               pdf_url_r = Has (Some ''http://arxiv.org/pdf/2401.00001v1''),
               doi_r = Missing,
               comment_r = Has None \<rparr>"

definition paper_b :: Result where
  "paper_b = \<lparr> entry_id = ''http://arxiv.org/abs/2401.00002v1'',
               title_r = ''Paper B'',
               summary_r = ''Abstract of B.'',
               published_r = Has ''2024-01-02T00:00:00+00:00'',
               authors_r = [''Bob''],
               categories_r = [''cs.CL''],
               pdf_url_r = Has (Some ''https://arxiv.org/pdf/2401.00002v1''),
               doi_r = Missing,
               comment_r = Missing \<rparr>"

definition fresh_a :: PaperData where
  "fresh_a = \<lparr> id' = JStr ''2401.00001v1'', title = JStr ''Paper A'',
               url = JStr ''http://arxiv.org/abs/2401.00001v1'',
               pdf_url = JStr ''https://arxiv.org/pdf/2401.00001v1'',
               doi = JNull, comment = JNull,
               published = JStr ''2024-01-01T00:00:00+00:00'',
               authors = JList [JStr ''Ada''], abstract = JStr ''Abstract of A.'',
               keywords' = JList [JStr ''cs.AI'', JStr ''cs.LG''], summary = JNull,
               categories = JList [JStr ''cs.AI'', JStr ''cs.LG''] \<rparr>"

definition fresh_b :: PaperData where
  "fresh_b = \<lparr> id' = JStr ''2401.00002v1'', title = JStr ''Paper B'',
               url = JStr ''http://arxiv.org/abs/2401.00002v1'',
               pdf_url = JStr ''https://arxiv.org/pdf/2401.00002v1'',
               doi = JNull, comment = JNull,
               published = JStr ''2024-01-02T00:00:00+00:00'',
               authors = JList [JStr ''Bob''], abstract = JStr ''Abstract of B.'',
               keywords' = JList [JStr ''cs.CL''], summary = JNull,
               categories = JList [JStr ''cs.CL''] \<rparr>"

definition cached_a :: PaperData where
  "cached_a = fresh_a\<lparr>summary := JStr ''A summary.''\<rparr>"

definition blank_a :: PaperData where
  "blank_a = fresh_a\<lparr>summary := JStr ''   ''\<rparr>"

text \<open>
  A remote service that answers a query for the page at offset 0 with \<open>page0\<close> and every
  later page with \<open>later\<close>, on a file system that accepts every write.
\<close>

definition service :: "results \<Rightarrow> results \<Rightarrow> env" where
  "service page0 later =
     \<lparr> client_results = (\<lambda>req. case req of Search q ids mr off \<Rightarrow>
                              if off = 0 then page0 else later),
       can_write = (\<lambda>path. True),
       repr_of = (\<lambda>v. ''<object>'') \<rparr>"

definition empty_world :: world where
  "empty_world = \<lparr> seen_papers = [], disk = Map.empty, requests = [] \<rparr>"

text \<open>A summary file for the first paper whose summary is three spaces.\<close>

definition world_blank :: world where
  "world_blank = empty_world\<lparr>disk := [summary_filepath ''2401.00001v1'' \<mapsto> Json (to_dict blank_a)]\<rparr>"

text \<open>A ledger that holds the first paper.\<close>

definition world_seen_a :: world where
  "world_seen_a = empty_world\<lparr>seen_papers := [(KStr ''2401.00001v1'', JStr ''t0'')]\<rparr>"

text \<open>A summary file for the first paper, with a summary.\<close>

definition world_cached_a :: world where
  "world_cached_a = empty_world\<lparr>disk := [summary_filepath ''2401.00001v1'' \<mapsto> Json (to_dict cached_a)]\<rparr>"

text \<open>A cached record for the first paper whose PDF URL is the empty string.\<close>

definition nourl_a :: PaperData where
  "nourl_a = cached_a\<lparr>pdf_url := JStr []\<rparr>"

definition world_nourl :: world where
  "world_nourl = empty_world\<lparr>disk := [summary_filepath ''2401.00001v1'' \<mapsto> Json (to_dict nourl_a)]\<rparr>"

text \<open>
  Summary files for the first paper that \<^verbatim>\<open>save_summary_to_file\<close> would not have
  written there: one holds the record of the second paper, one a record whose id is a list.
\<close>

definition stray_b :: PaperData where
  "stray_b = fresh_b\<lparr>summary := JStr ''B summary.''\<rparr>"

definition world_stray :: world where
  "world_stray = empty_world\<lparr>disk := [summary_filepath ''2401.00001v1'' \<mapsto> Json (to_dict stray_b)]\<rparr>"



text \<open>
  The misplaced record with the second paper already in the ledger; and the loop after a
  page with both papers, the first one taken from its summary file.
\<close>

definition world_stray_seen_b :: world where
  "world_stray_seen_b = world_stray\<lparr>seen_papers := [(KStr ''2401.00002v1'', JStr ''t0'')]\<rparr>"


text \<open>A summary file for the first paper whose bytes are not text.\<close>

definition world_nottext :: world where
  "world_nottext = empty_world\<lparr>disk := [summary_filepath ''2401.00001v1'' \<mapsto> NotText]\<rparr>"

section \<open>Properties\<close>

subsection \<open>Auxiliary facts\<close>

lemma split_chr_nonempty:
  "split_chr c s \<noteq> []"
  by (induction s) (auto split: list.splits)


lemma from_dict_to_dict:
  "from_dict (to_dict p) = Inr p"
  by (cases p) (simp add: to_dict_def field_def field_names_def)

lemma convert_a:
  "convert_result paper_a = Inr fresh_a"
  by (simp add: convert_result_def paper_a_def fresh_a_def arxiv_id_of_def startswith_def
      str_list_def Let_def)

lemma convert_b:
  "convert_result paper_b = Inr fresh_b"
  by (simp add: convert_result_def paper_b_def fresh_b_def arxiv_id_of_def startswith_def
      str_list_def Let_def)

lemma id_a:
  "arxiv_id_of paper_a = ''2401.00001v1''"
  by (simp add: paper_a_def arxiv_id_of_def)

lemma id_b:
  "arxiv_id_of paper_b = ''2401.00002v1''"
  by (simp add: paper_b_def arxiv_id_of_def)

lemma id_fresh_a:
  "id' fresh_a = JStr ''2401.00001v1''"
  by (simp add: fresh_a_def)

lemma id_fresh_b:
  "id' fresh_b = JStr ''2401.00002v1''"
  by (simp add: fresh_b_def)

lemma query_cs_AI:
  "construct_query None (Some [''cs.AI'']) = ''cat:cs.AI''"
  by (simp add: construct_query_def)

lemma path_a:
  "summary_filepath ''2401.00001v1'' = ''paper_summaries/2401.00001v1.json''"
  by (simp add: summary_filepath_def path_join_def SUMMARIES_DIR_def startswith_def)

lemma path_b:
  "summary_filepath ''2401.00002v1'' = ''paper_summaries/2401.00002v1.json''"
  by (simp add: summary_filepath_def path_join_def SUMMARIES_DIR_def startswith_def)

lemma id_cached_a:
  "id' cached_a = JStr ''2401.00001v1''"
  by (simp add: cached_a_def fresh_a_def)


lemma not_enriched_blank_a:
  "\<not> enriched blank_a"
  by (simp add: enriched_def blank_a_def strip_def isspace_def)


lemma dict_has_set:
  "dict_has (dict_set k v d) k' = (dict_has d k' \<or> key_norm k' = key_norm k)"
  by (induction d) (auto simp: dict_has_def)

lemma key_norm_KStr:
  "(key_norm k = KStr s) = (k = KStr s)"
  by (cases k) auto

lemma as_key_KStr:
  "(as_key v = Some (KStr s)) = (v = JStr s)"
  by (cases v) auto

lemma in_ledger_JStr:
  "in_ledger w (JStr k) = is_seen w k"
  by (simp add: in_ledger_def is_seen_def)

lemma mark_loop_None:
  "mark_loop d ps seen = (None, seen') \<Longrightarrow>
     (\<forall>p \<in> set ps. as_key (id' p) \<noteq> None)
     \<and> (\<forall>k. dict_has seen' k
            = (dict_has seen k
               \<or> (\<exists>p \<in> set ps. \<exists>k'. as_key (id' p) = Some k' \<and> key_norm k = key_norm k')))"
proof (induction ps arbitrary: seen)
  case Nil
  then show ?case by simp
next
  case (Cons p ps)
  from Cons.prems obtain k0 where k0: "as_key (id' p) = Some k0"
    and rest: "mark_loop d ps (dict_set k0 (JStr d) seen) = (None, seen')"
    by (auto split: option.splits)
  from Cons.IH [OF rest] have ih1: "\<forall>p \<in> set ps. as_key (id' p) \<noteq> None"
    and ih2: "\<And>k. dict_has seen' k
            = (dict_has (dict_set k0 (JStr d) seen) k
               \<or> (\<exists>p \<in> set ps. \<exists>k'. as_key (id' p) = Some k' \<and> key_norm k = key_norm k'))"
    by blast+
  have a: "\<forall>q \<in> set (p # ps). as_key (id' q) \<noteq> None"
    using k0 ih1 by simp
  have b: "\<forall>k. dict_has seen' k
            = (dict_has seen k
               \<or> (\<exists>q \<in> set (p # ps). \<exists>k'. as_key (id' q) = Some k' \<and> key_norm k = key_norm k'))"
    using k0 by (auto simp: ih2 dict_has_set)
  from a b show ?case by blast
qed


lemma mark_loop_unhashable:
  "\<exists>p \<in> set ps. as_key (id' p) = None \<Longrightarrow> fst (mark_loop d ps seen) = Some TypeError"
  by (induction ps arbitrary: seen) (auto split: option.splits)

lemma mark_papers_None:
  "mark_papers_as_seen E d w ps = (None, w') \<Longrightarrow>
     \<exists>seen'. mark_loop d ps (seen_papers w) = (None, seen')
       \<and> w' = save_seen_papers E (w\<lparr>seen_papers := seen'\<rparr>)"
  by (auto simp: mark_papers_as_seen_def split: prod.splits option.splits)

lemma seen_papers_saved:
  "seen_papers (save_seen_papers E w) = seen_papers w"
  by (simp add: save_seen_papers_def)

lemma in_ledger_marked:   assumes "mark_papers_as_seen E d w ps = (None, w')" and "p \<in> set ps"
  shows "in_ledger w' (id' p)"
proof -
  from mark_papers_None [OF assms(1)] obtain seen' where
    ml: "mark_loop d ps (seen_papers w) = (None, seen')"
    and w': "w' = save_seen_papers E (w\<lparr>seen_papers := seen'\<rparr>)"
    by blast
  from mark_loop_None [OF ml] assms(2) obtain k where k: "as_key (id' p) = Some k"
    and "dict_has seen' k"
    by (cases "as_key (id' p)") auto
  then show ?thesis by (simp add: in_ledger_def w' seen_papers_saved)
qed



lemma is_seen_marked:
  assumes "mark_papers_as_seen E d w ps = (None, w')"
  shows "is_seen w' k = (is_seen w k \<or> JStr k \<in> id' ` set ps)"
proof -
  from mark_papers_None [OF assms] obtain seen' where
    ml: "mark_loop d ps (seen_papers w) = (None, seen')"
    and w': "w' = save_seen_papers E (w\<lparr>seen_papers := seen'\<rparr>)"
    by blast
  from mark_loop_None [OF ml]
  have "dict_has seen' (KStr k)
      = (dict_has (seen_papers w) (KStr k)
         \<or> (\<exists>p \<in> set ps. \<exists>k'. as_key (id' p) = Some k' \<and> key_norm (KStr k) = key_norm k'))"
    by blast
  also have "(\<exists>p \<in> set ps. \<exists>k'. as_key (id' p) = Some k' \<and> key_norm (KStr k) = key_norm k')
      = (JStr k \<in> id' ` set ps)"
  proof
    assume "\<exists>p \<in> set ps. \<exists>k'. as_key (id' p) = Some k' \<and> key_norm (KStr k) = key_norm k'"
    then obtain p k' where p: "p \<in> set ps" and k': "as_key (id' p) = Some k'"
      and n: "key_norm k' = KStr k"
      by auto
    from n have "k' = KStr k" by (simp add: key_norm_KStr)
    with k' have "id' p = JStr k" by (simp add: as_key_KStr)
    with p show "JStr k \<in> id' ` set ps" by force
  next
    assume "JStr k \<in> id' ` set ps"
    then obtain p where "p \<in> set ps" "id' p = JStr k" by auto
    then show "\<exists>p \<in> set ps. \<exists>k'. as_key (id' p) = Some k' \<and> key_norm (KStr k) = key_norm k'"
      by (intro bexI [of _ p] exI [of _ "KStr k"]) simp_all
  qed
  finally show ?thesis by (simp add: is_seen_def w' seen_papers_saved)
qed


lemma page_loop_all_seen:
  "\<forall>r \<in> set rs. is_seen w (arxiv_id_of r) \<or> arxiv_id_of r \<in> run \<Longrightarrow>
     page_loop w mx rs (f, run, n) = (f, run, n, None)"
  by (induction rs) auto

lemma page_loop_appends:
  "page_loop w mx rs (f, r, n) = (f', r', n', e) \<Longrightarrow>
     \<exists>new. f' = f @ new \<and> length new + n = n'"
proof (induction rs arbitrary: f r n)
  case Nil
  then show ?case by simp
next
  case (Cons paper rest)
  show ?case
  proof (cases "is_seen w (arxiv_id_of paper) \<or> arxiv_id_of paper \<in> r")
    case True
    with Cons.prems have "page_loop w mx rest (f, r, n) = (f', r', n', e)" by simp
    then show ?thesis by (rule Cons.IH)
  next
    case False
    show ?thesis
    proof (cases "load_or_convert w paper")
      case (Inl x)
      with False Cons.prems show ?thesis by simp
    next
      case (Inr pd)
      show ?thesis
      proof (cases "int (length (f @ [pd])) \<ge> mx")
        case True
        with False Inr Cons.prems show ?thesis by auto
      next
        case False2: False
        with False Inr Cons.prems
        have "page_loop w mx rest (f @ [pd], insert (arxiv_id_of paper) r, Suc n) = (f', r', n', e)"
          by simp
        from Cons.IH [OF this] obtain new where "f' = (f @ [pd]) @ new" "length new + Suc n = n'"
          by blast
        then have "f' = f @ (pd # new) \<and> length (pd # new) + n = n'" by simp
        then show ?thesis by blast
      qed
    qed
  qed
qed

lemma loop_body_counter:
  assumes "loop_body E w q mx rs t s = Next s'"
  shows "consecutive_seen_requests s'
       = (if found_papers s' = found_papers s then consecutive_seen_requests s + 1 else 0)"
proof -
  from assms obtain pg found run n where
    pl: "page_loop w mx pg (found_papers s, seen_in_this_run s, 0) = (found, run, n, None)"
    and f': "found_papers s' = found"
    and c': "consecutive_seen_requests s' = (if n = 0 then consecutive_seen_requests s + 1 else 0)"
    by (auto simp: loop_body_def Let_def split: if_splits sum.splits prod.splits option.splits)
  from page_loop_appends [OF pl] obtain new where "found = found_papers s @ new" "length new = n"
    by auto
  then have "(n = 0) = (found = found_papers s)" by auto
  with f' c' show ?thesis by simp
qed

lemma stall_from:
  assumes "\<And>off pg. list_of (client_results E (Search q [] (Some rs) off)) = Inr pg \<Longrightarrow>
             \<forall>r \<in> set pg. is_seen w (arxiv_id_of r) \<or> arxiv_id_of r \<in> seen_in_this_run s"
  shows "length (issued (snd (while_loop E w q mx rs t s)))
           \<le> length (issued s) + (3 - consecutive_seen_requests s)
       \<and> found_papers (snd (while_loop E w q mx rs t s)) = found_papers s"
  using assms
proof (induction E w q mx rs t s rule: while_loop.induct)
  case (1 E w q mx rs t s)
  show ?case
  proof (cases "loop_cond mx s")
    case False
    then have "while_loop E w q mx rs t s = (None, s)"
      by (subst while_loop.simps) simp
    then show ?thesis by simp
  next
    case True
    then have c3: "consecutive_seen_requests s < 3" by (simp add: loop_cond_def)
    show ?thesis
    proof (cases "loop_body E w q mx rs t s")
      case (Raises e s')
      then have "s' = s" by (auto simp: loop_body_def Let_def split: if_splits sum.splits prod.splits option.splits)
      with True Raises have "while_loop E w q mx rs t s = (Some e, s)"
        by (subst while_loop.simps) simp
      then show ?thesis by simp
    next
      case (Break s')
      have "length (issued s') = length (issued s) + 1 \<and> found_papers s' = found_papers s"
      proof (cases "list_of (client_results E (Search q [] (Some rs) (start_index s)))")
        case (Inl e)
        with Break show ?thesis by (auto simp: loop_body_def Let_def split: if_splits)
      next
        case (Inr pg)
        from "1.prems" [OF Inr] have
          "page_loop w mx pg (found_papers s, seen_in_this_run s, 0)
             = (found_papers s, seen_in_this_run s, 0, None)"
          by (rule page_loop_all_seen)
        with Break Inr show ?thesis by (auto simp: loop_body_def Let_def split: if_splits)
      qed
      moreover from True Break have "while_loop E w q mx rs t s = (None, s')"
        by (subst while_loop.simps) simp
      ultimately show ?thesis using c3 by simp
    next
      case (Next s')
      have s': "length (issued s') = length (issued s) + 1 \<and> found_papers s' = found_papers s
          \<and> seen_in_this_run s' = seen_in_this_run s
          \<and> consecutive_seen_requests s' = consecutive_seen_requests s + 1"
      proof (cases "list_of (client_results E (Search q [] (Some rs) (start_index s)))")
        case (Inl e)
        with Next show ?thesis by (auto simp: loop_body_def Let_def split: if_splits)
      next
        case (Inr pg)
        from "1.prems" [OF Inr] have
          "page_loop w mx pg (found_papers s, seen_in_this_run s, 0)
             = (found_papers s, seen_in_this_run s, 0, None)"
          by (rule page_loop_all_seen)
        with Next Inr show ?thesis by (auto simp: loop_body_def Let_def split: if_splits)
      qed
      have "length (issued (snd (while_loop E w q mx rs t s')))
           \<le> length (issued s') + (3 - consecutive_seen_requests s')
       \<and> found_papers (snd (while_loop E w q mx rs t s')) = found_papers s'"
        using True Next "1.prems" s' by (intro "1.IH") auto
      moreover from True Next have "while_loop E w q mx rs t s = while_loop E w q mx rs t s'"
        by (subst while_loop.simps) simp
      ultimately show ?thesis using s' c3 by simp arith
    qed
  qed
qed

lemma loop_body_Raises:
  "loop_body E w q mx rs t s = Raises e s' \<Longrightarrow> e = ZeroDivisionError \<and> rs = 0 \<and> s' = s"
  by (auto simp: loop_body_def Let_def split: if_splits sum.splits prod.splits option.splits)

lemma while_loop_exn:
  "fst (while_loop E w q mx rs t s) = Some e \<Longrightarrow> e = ZeroDivisionError \<and> rs = 0"
proof (induction E w q mx rs t s rule: while_loop.induct)
  case (1 E w q mx rs t s)
  show ?case
  proof (cases "loop_cond mx s")
    case False
    with "1.prems" show ?thesis by (subst (asm) while_loop.simps) simp
  next
    case True
    show ?thesis
    proof (cases "loop_body E w q mx rs t s")
      case (Raises e' s')
      with True "1.prems" have "e' = e" by (subst (asm) while_loop.simps) simp
      with Raises show ?thesis by (auto dest: loop_body_Raises)
    next
      case (Break s')
      with True "1.prems" show ?thesis by (subst (asm) while_loop.simps) simp
    next
      case (Next s')
      with True "1.prems" have "fst (while_loop E w q mx rs t s') = Some e"
        by (subst (asm) while_loop.simps) simp
      with True Next show ?thesis by (intro "1.IH")
    qed
  qed
qed

lemma requests_marked:
  "requests (snd (mark_papers_as_seen E d w ps)) = requests w"
  by (simp add: mark_papers_as_seen_def save_seen_papers_def split: prod.splits option.splits)

lemma summary_filepath_inj:
  "summary_filepath a = summary_filepath b \<Longrightarrow> a = b"
  by (auto simp: summary_filepath_def path_join_def SUMMARIES_DIR_def startswith_def
      split: if_splits list.splits)

lemma summary_filepath_eq:
  "(summary_filepath a = summary_filepath b) = (a = b)"
  by (auto dest: summary_filepath_inj)

lemma summary_filepath_not_ledger:
  "summary_filepath k \<noteq> SEEN_PAPERS_FILE"
  by (cases k) (auto simp: summary_filepath_def path_join_def SUMMARIES_DIR_def startswith_def
      SEEN_PAPERS_FILE_def split: if_splits)

lemma cache_consistent_empty:
  "cache_consistent empty_world"
  by (simp add: cache_consistent_def empty_world_def)

lemma cache_consistent_save_summary:
  "cache_consistent w \<Longrightarrow> save_summary_to_file E w p = Inr w' \<Longrightarrow> id' p = JStr k
     \<Longrightarrow> cache_consistent w'"
  by (auto simp: cache_consistent_def save_summary_to_file_def from_dict_to_dict
      summary_filepath_eq split: if_splits jval.splits)

lemma cache_consistent_marked:
  "cache_consistent w \<Longrightarrow> cache_consistent (snd (mark_papers_as_seen E d w ps))"
  by (auto simp: cache_consistent_def mark_papers_as_seen_def save_seen_papers_def
      summary_filepath_not_ledger split: prod.splits option.splits)

lemma cache_consistent_requests:
  "cache_consistent (w\<lparr>requests := r\<rparr>) = cache_consistent w"
  by (simp add: cache_consistent_def)

lemma cache_consistent_cached_a:
  "cache_consistent world_cached_a"
  by (auto simp: cache_consistent_def world_cached_a_def empty_world_def from_dict_to_dict
      id_cached_a summary_filepath_eq split: if_splits)

lemma convert_result_id:
  "convert_result r = Inr p \<Longrightarrow> id' p = JStr (arxiv_id_of r)"
  by (auto simp: convert_result_def Let_def split: option.splits)

lemma load_summary_id:
  "cache_consistent w \<Longrightarrow> load_summary_from_file w k = Inr (Some p) \<Longrightarrow> truthy (summary p)
     \<Longrightarrow> id' p = JStr k"
  by (auto simp: cache_consistent_def load_summary_from_file_def
      split: option.splits filedata.splits sum.splits)

lemma load_or_convert_id:
  "cache_consistent w \<Longrightarrow> load_or_convert w r = Inr p \<Longrightarrow> id' p = JStr (arxiv_id_of r)"
  by (auto simp: load_or_convert_def split: sum.splits option.splits if_splits
      dest: convert_result_id load_summary_id)

lemma page_loop_inv:
  assumes "cache_consistent w"
  shows "page_loop w mx rs (f, run, n) = (f', run', n', e) \<Longrightarrow> run_inv w f run
     \<Longrightarrow> run_inv w f' run'"
proof (induction rs arbitrary: f run n)
  case Nil
  then show ?case by simp
next
  case (Cons paper rest)
  show ?case
  proof (cases "is_seen w (arxiv_id_of paper) \<or> arxiv_id_of paper \<in> run")
    case True
    with Cons.prems have "page_loop w mx rest (f, run, n) = (f', run', n', e)" by simp
    from Cons.IH [OF this Cons.prems(2)] show ?thesis .
  next
    case False
    show ?thesis
    proof (cases "load_or_convert w paper")
      case (Inl x)
      with False Cons.prems show ?thesis by simp
    next
      case (Inr pd)
      from load_or_convert_id [OF assms Inr] have k: "id' pd = JStr (arxiv_id_of paper)" .
      with False Cons.prems(2)
      have inv': "run_inv w (f @ [pd]) (insert (arxiv_id_of paper) run)"
        by (auto simp: run_inv_def in_ledger_JStr)
      show ?thesis
      proof (cases "int (length (f @ [pd])) \<ge> mx")
        case True
        with False Inr Cons.prems(1) inv' show ?thesis by auto
      next
        case False2: False
        with False Inr Cons.prems(1)
        have "page_loop w mx rest (f @ [pd], insert (arxiv_id_of paper) run, Suc n)
            = (f', run', n', e)"
          by simp
        from Cons.IH [OF this inv'] show ?thesis .
      qed
    qed
  qed
qed

lemma loop_body_inv:
  assumes "cache_consistent w"
    and "run_inv w (found_papers s) (seen_in_this_run s)"
  shows "(case loop_body E w q mx rs t s of
            Raises e s' \<Rightarrow> run_inv w (found_papers s') (seen_in_this_run s')
          | Break s' \<Rightarrow> run_inv w (found_papers s') (seen_in_this_run s')
          | Next s' \<Rightarrow> run_inv w (found_papers s') (seen_in_this_run s'))"
proof (cases "rs = 0")
  case True
  with assms(2) show ?thesis by (simp add: loop_body_def)
next
  case False
  show ?thesis
  proof (cases "list_of (client_results E (Search q [] (Some rs) (start_index s)))")
    case (Inl e)
    with False assms(2) show ?thesis by (simp add: loop_body_def Let_def)
  next
    case (Inr pg)
    obtain f' run' n' e where
      pl: "page_loop w mx pg (found_papers s, seen_in_this_run s, 0) = (f', run', n', e)"
      by (cases "page_loop w mx pg (found_papers s, seen_in_this_run s, 0)") auto
    from page_loop_inv [OF assms(1) pl assms(2)] have "run_inv w f' run'" .
    with False Inr pl assms(2) show ?thesis
      by (cases e) (simp_all add: loop_body_def Let_def)
  qed
qed

lemma while_loop_inv:
  "cache_consistent w \<Longrightarrow> run_inv w (found_papers s) (seen_in_this_run s) \<Longrightarrow>
     run_inv w (found_papers (snd (while_loop E w q mx rs t s)))
       (seen_in_this_run (snd (while_loop E w q mx rs t s)))"
proof (induction E w q mx rs t s rule: while_loop.induct)
  case (1 E w q mx rs t s)
  show ?case
  proof (cases "loop_cond mx s")
    case False
    then have "while_loop E w q mx rs t s = (None, s)"
      by (subst while_loop.simps) simp
    with "1.prems" show ?thesis by simp
  next
    case True
    note body = loop_body_inv [OF "1.prems", of E q mx rs t]
    show ?thesis
    proof (cases "loop_body E w q mx rs t s")
      case (Raises e s')
      with True have "while_loop E w q mx rs t s = (Some e, s')"
        by (subst while_loop.simps) simp
      with body Raises show ?thesis by simp
    next
      case (Break s')
      with True have "while_loop E w q mx rs t s = (None, s')"
        by (subst while_loop.simps) simp
      with body Break show ?thesis by simp
    next
      case (Next s')
      with True have "while_loop E w q mx rs t s = while_loop E w q mx rs t s'"
        by (subst while_loop.simps) simp
      moreover from body Next have "run_inv w (found_papers s') (seen_in_this_run s')" by simp
      ultimately show ?thesis using "1.IH" [OF True Next "1.prems"(1)] by simp
    qed
  qed
qed

lemma page_loop_run_mono:
  "page_loop w mx pg (f, run, n) = (f', run', n', e) \<Longrightarrow> run \<subseteq> run'"
proof (induction pg arbitrary: f run n)
  case Nil
  then show ?case by simp
next
  case (Cons paper rest)
  show ?case
  proof (cases "is_seen w (arxiv_id_of paper) \<or> arxiv_id_of paper \<in> run")
    case True
    with Cons.prems have "page_loop w mx rest (f, run, n) = (f', run', n', e)" by simp
    then show ?thesis by (rule Cons.IH)
  next
    case False
    show ?thesis
    proof (cases "load_or_convert w paper")
      case (Inl x)
      with False Cons.prems show ?thesis by simp
    next
      case (Inr pd)
      show ?thesis
      proof (cases "int (length (f @ [pd])) \<ge> mx")
        case True
        with False Inr Cons.prems show ?thesis by auto
      next
        case False2: False
        with False Inr Cons.prems
        have "page_loop w mx rest (f @ [pd], insert (arxiv_id_of paper) run, Suc n)
            = (f', run', n', e)"
          by simp
        from Cons.IH [OF this] show ?thesis by blast
      qed
    qed
  qed
qed

lemma page_loop_rerun:
  assumes same_load: "\<And>r. load_or_convert w2 r = load_or_convert w1 r"
    and seen2: "\<And>k. is_seen w2 k = (is_seen w1 k \<or> k \<in> R)"
  shows "page_loop w1 mx pg (f, run, n) = (f', run', n', eo) \<Longrightarrow> int (length f') < mx
     \<Longrightarrow> run' \<subseteq> R \<Longrightarrow> (eo \<noteq> None \<Longrightarrow> R = run')
     \<Longrightarrow> page_loop w2 mx pg (g, {}, m) = (g, {}, m, eo)"
proof (induction pg arbitrary: f run n)
  case Nil
  then show ?case by simp
next
  case (Cons paper rest)
  let ?k = "arxiv_id_of paper"
  from page_loop_run_mono [OF Cons.prems(1)] Cons.prems(3) have runR: "run \<subseteq> R" by blast
  show ?case
  proof (cases "is_seen w1 ?k \<or> ?k \<in> run")
    case True
    with Cons.prems(1) have 1: "page_loop w1 mx rest (f, run, n) = (f', run', n', eo)" by simp
    from True runR have "is_seen w2 ?k" by (auto simp: seen2)
    with Cons.IH [OF 1 Cons.prems(2,3,4)] show ?thesis by simp
  next
    case False
    show ?thesis
    proof (cases "load_or_convert w1 paper")
      case (Inl e)
      with False Cons.prems(1) have eo: "eo = Some e" and r: "run' = run" by auto
      with Cons.prems(4) have "R = run" by simp
      with False have "\<not> is_seen w2 ?k" by (simp add: seen2)
      with Inl eo show ?thesis by (simp add: same_load)
    next
      case (Inr pd)
      show ?thesis
      proof (cases "int (length (f @ [pd])) \<ge> mx")
        case True
        with False Inr Cons.prems(1) have "f' = f @ [pd]" by auto
        with True Cons.prems(2) show ?thesis by simp
      next
        case False2: False
        with False Inr Cons.prems(1)
        have 1: "page_loop w1 mx rest (f @ [pd], insert ?k run, Suc n) = (f', run', n', eo)"
          by simp
        from page_loop_run_mono [OF 1] Cons.prems(3) have "?k \<in> R" by blast
        then have "is_seen w2 ?k" by (simp add: seen2)
        with Cons.IH [OF 1 Cons.prems(2,3,4)] show ?thesis by simp
      qed
    qed
  qed
qed

lemma loop_body_mono:
  "loop_body E w q mx rs t s = r \<Longrightarrow> r = Raises e s' \<or> r = Break s' \<or> r = Next s' \<Longrightarrow>
     length (found_papers s) \<le> length (found_papers s')
     \<and> seen_in_this_run s \<subseteq> seen_in_this_run s'"
proof -
  assume b: "loop_body E w q mx rs t s = r" and r: "r = Raises e s' \<or> r = Break s' \<or> r = Next s'"
  show ?thesis
  proof (cases "rs = 0")
    case True
    with b r show ?thesis by (auto simp: loop_body_def)
  next
    case False
    show ?thesis
    proof (cases "list_of (client_results E (Search q [] (Some rs) (start_index s)))")
      case (Inl x)
      with False b r show ?thesis by (auto simp: loop_body_def Let_def)
    next
      case (Inr pg)
      obtain f' run' n' eo where
        pl: "page_loop w mx pg (found_papers s, seen_in_this_run s, 0) = (f', run', n', eo)"
        by (cases "page_loop w mx pg (found_papers s, seen_in_this_run s, 0)") auto
      from page_loop_appends [OF pl] page_loop_run_mono [OF pl]
      have "length (found_papers s) \<le> length f'" "seen_in_this_run s \<subseteq> run'" by auto
      with False Inr pl b r show ?thesis
        by (cases eo) (auto simp: loop_body_def Let_def split: if_splits)
    qed
  qed
qed

lemma while_loop_mono:
  "length (found_papers s) \<le> length (found_papers (snd (while_loop E w q mx rs t s)))
   \<and> seen_in_this_run s \<subseteq> seen_in_this_run (snd (while_loop E w q mx rs t s))"
proof (induction E w q mx rs t s rule: while_loop.induct)
  case (1 E w q mx rs t s)
  show ?case
  proof (cases "loop_cond mx s")
    case False
    then have "while_loop E w q mx rs t s = (None, s)"
      by (subst while_loop.simps) simp
    then show ?thesis by simp
  next
    case True
    show ?thesis
    proof (cases "loop_body E w q mx rs t s")
      case (Raises e s')
      with True have "while_loop E w q mx rs t s = (Some e, s')"
        by (subst while_loop.simps) simp
      with loop_body_mono [OF Raises, of e s'] show ?thesis by simp
    next
      case (Break s')
      with True have "while_loop E w q mx rs t s = (None, s')"
        by (subst while_loop.simps) simp
      with loop_body_mono [OF Break, of _ s'] show ?thesis by simp
    next
      case (Next s')
      with True have "while_loop E w q mx rs t s = while_loop E w q mx rs t s'"
        by (subst while_loop.simps) simp
      with loop_body_mono [OF Next, of _ s'] "1.IH" [OF True Next] show ?thesis by auto
    qed
  qed
qed

lemma loop_body_page:
  assumes "rs \<noteq> 0"
    and "list_of (client_results E (Search q [] (Some rs) (start_index s))) = Inr pg"
    and "pg \<noteq> []"
    and "page_loop w mx pg (found_papers s, seen_in_this_run s, 0) = (f, r, n, eo)"
  shows "loop_body E w q mx rs t s =
     (case eo of
        Some e \<Rightarrow> Break (s\<lparr>issued := issued s @ [Search q [] (Some rs) (start_index s)],
                           found_papers := f, seen_in_this_run := r\<rparr>)
      | None \<Rightarrow>
          if loop_cond mx (page_done s (Search q [] (Some rs) (start_index s)) f r rs n) \<and> t < 0
          then Break (page_done s (Search q [] (Some rs) (start_index s)) f r rs n)
          else Next (page_done s (Search q [] (Some rs) (start_index s)) f r rs n))"
  using assms by (simp add: loop_body_def Let_def page_done_def split: option.splits)

lemma while_loop_stop:
  "\<not> loop_cond mx s \<Longrightarrow> while_loop E w q mx rs t s = (None, s)"
  by (subst while_loop.simps) simp

lemma while_loop_Break:
  "loop_cond mx s \<Longrightarrow> loop_body E w q mx rs t s = Break s' \<Longrightarrow>
     while_loop E w q mx rs t s = (None, s')"
  by (subst while_loop.simps) simp

lemma while_loop_Next:
  "loop_cond mx s \<Longrightarrow> loop_body E w q mx rs t s = Next s' \<Longrightarrow>
     while_loop E w q mx rs t s = while_loop E w q mx rs t s'"
  by (subst while_loop.simps) simp

lemma while_loop_Raises:
  "loop_cond mx s \<Longrightarrow> loop_body E w q mx rs t s = Raises e s' \<Longrightarrow>
     while_loop E w q mx rs t s = (Some e, s')"
  by (subst while_loop.simps) simp

lemma rerun_empty:
  "while_loop E w1 q mx rs t s1 = (None, sF) \<Longrightarrow>
   int (length (found_papers sF)) < mx \<Longrightarrow>
   \<forall>r. load_or_convert w2 r = load_or_convert w1 r \<Longrightarrow>
   \<forall>k. is_seen w2 k = (is_seen w1 k \<or> k \<in> seen_in_this_run sF) \<Longrightarrow>
   found_papers s2 = [] \<Longrightarrow> seen_in_this_run s2 = {} \<Longrightarrow>
   start_index s2 = start_index s1 \<Longrightarrow>
   consecutive_seen_requests s1 \<le> consecutive_seen_requests s2 \<Longrightarrow>
   fst (while_loop E w2 q mx rs t s2) = None
   \<and> found_papers (snd (while_loop E w2 q mx rs t s2)) = []"
proof (induction E w1 q mx rs t s1 arbitrary: s2 rule: while_loop.induct)
  case (1 E w1 q mx rs t s1)
  note out = "1.prems"(1) and short = "1.prems"(2) and same_load = "1.prems"(3)
    and seen2 = "1.prems"(4) and f2 = "1.prems"(5) and r2 = "1.prems"(6)
    and st = "1.prems"(7) and cc = "1.prems"(8)
  show ?case
  proof (cases "loop_cond mx s2")
    case False
    then show ?thesis using f2 by (simp add: while_loop_stop)
  next
    case c2: True
    have c1: "loop_cond mx s1"
    proof (rule ccontr)
      assume n: "\<not> loop_cond mx s1"
      then have "sF = s1" using out by (simp add: while_loop_stop)
      with n short have "\<not> consecutive_seen_requests s1 < 3" by (simp add: loop_cond_def)
      with cc c2 show False by (simp add: loop_cond_def)
    qed
    have rs0: "rs \<noteq> 0"
    proof
      assume "rs = 0"
      then have "loop_body E w1 q mx rs t s1 = Raises ZeroDivisionError s1"
        by (simp add: loop_body_def)
      from while_loop_Raises [OF c1 this] out show False by simp
    qed
    let ?req = "Search q [] (Some rs) (start_index s1)"
    have req2: "Search q [] (Some rs) (start_index s2) = ?req" by (simp add: st)
    show ?thesis
    proof (cases "list_of (client_results E ?req)")
      case (Inl e)
      with rs0 have "loop_body E w2 q mx rs t s2 = Break (s2\<lparr>issued := issued s2 @ [?req]\<rparr>)"
        by (simp add: loop_body_def Let_def req2)
      from while_loop_Break [OF c2 this] f2 show ?thesis by simp
    next
      case (Inr pg)
      show ?thesis
      proof (cases "pg = []")
        case True
        with Inr rs0 have "loop_body E w2 q mx rs t s2 = Break (s2\<lparr>issued := issued s2 @ [?req]\<rparr>)"
          by (simp add: loop_body_def Let_def req2)
        from while_loop_Break [OF c2 this] f2 show ?thesis by simp
      next
        case False
        obtain f1 r1 n1 eo where
          pl: "page_loop w1 mx pg (found_papers s1, seen_in_this_run s1, 0) = (f1, r1, n1, eo)"
          by (cases "page_loop w1 mx pg (found_papers s1, seen_in_this_run s1, 0)") auto
        note b1 = loop_body_page [OF rs0 Inr False pl, of t]
        let ?d1 = "page_done s1 ?req f1 r1 rs n1"
        have key: "int (length f1) < mx \<and> r1 \<subseteq> seen_in_this_run sF
            \<and> (eo \<noteq> None \<longrightarrow> seen_in_this_run sF = r1)"
        proof (cases eo)
          case (Some e)
          with b1 have "loop_body E w1 q mx rs t s1
              = Break (s1\<lparr>issued := issued s1 @ [?req], found_papers := f1,
                         seen_in_this_run := r1\<rparr>)"
            by simp
          from while_loop_Break [OF c1 this] out
          have "sF = s1\<lparr>issued := issued s1 @ [?req], found_papers := f1,
                         seen_in_this_run := r1\<rparr>"
            by simp
          with short show ?thesis by simp
        next
          case None
          show ?thesis
          proof (cases "loop_cond mx ?d1 \<and> t < 0")
            case True
            with b1 None have "loop_body E w1 q mx rs t s1 = Break ?d1" by simp
            from while_loop_Break [OF c1 this] out have "sF = ?d1" by simp
            with short None show ?thesis by (simp add: page_done_def)
          next
            case False
            with b1 None have n: "loop_body E w1 q mx rs t s1 = Next ?d1" by simp
            from while_loop_Next [OF c1 n] out
            have "while_loop E w1 q mx rs t ?d1 = (None, sF)" by simp
            with while_loop_mono [of ?d1 E w1 q mx rs t]
            have "length f1 \<le> length (found_papers sF)" "r1 \<subseteq> seen_in_this_run sF"
              by (simp_all add: page_done_def)
            with short None show ?thesis by simp
          qed
        qed
        have seen2': "\<And>k. is_seen w2 k = (is_seen w1 k \<or> k \<in> seen_in_this_run sF)"
          using seen2 by blast
        have same': "\<And>r. load_or_convert w2 r = load_or_convert w1 r"
          using same_load by blast
        have pl2: "page_loop w2 mx pg (found_papers s2, seen_in_this_run s2, 0)
            = ([], {}, 0, eo)"
          unfolding f2 r2
          using page_loop_rerun [OF same' seen2' pl, of "[]" 0] key by blast
        have Inr2: "list_of (client_results E (Search q [] (Some rs) (start_index s2))) = Inr pg"
          using Inr by (simp add: req2)
        note b2 = loop_body_page [OF rs0 Inr2 False pl2, of t]
        let ?d2 = "page_done s2 (Search q [] (Some rs) (start_index s2)) [] {} rs 0"
        have fd2: "found_papers ?d2 = []" by (simp add: page_done_def)
        show ?thesis
        proof (cases eo)
          case (Some e)
          with b2 have "\<exists>s'. loop_body E w2 q mx rs t s2 = Break s' \<and> found_papers s' = []"
            by simp
          then obtain s' where "loop_body E w2 q mx rs t s2 = Break s'" "found_papers s' = []"
            by blast
          with while_loop_Break [OF c2 this(1)] show ?thesis by simp
        next
          case None
          show ?thesis
          proof (cases "loop_cond mx ?d2 \<and> t < 0")
            case True
            with b2 None have "loop_body E w2 q mx rs t s2 = Break ?d2" by simp
            from while_loop_Break [OF c2 this] fd2 show ?thesis by simp
          next
            case nb2: False
            with b2 None have "loop_body E w2 q mx rs t s2 = Next ?d2" by simp
            from while_loop_Next [OF c2 this]
            have w2eq: "while_loop E w2 q mx rs t s2 = while_loop E w2 q mx rs t ?d2" .
            show ?thesis
            proof (cases "loop_cond mx ?d2")
              case False
              then show ?thesis unfolding w2eq using fd2 by (simp add: while_loop_stop)
            next
              case True
              with nb2 have t0: "\<not> t < 0" by simp
              with b1 None have n: "loop_body E w1 q mx rs t s1 = Next ?d1" by simp
              from while_loop_Next [OF c1 n] out
              have o: "while_loop E w1 q mx rs t ?d1 = (None, sF)" by simp
              have "fst (while_loop E w2 q mx rs t ?d2) = None
                  \<and> found_papers (snd (while_loop E w2 q mx rs t ?d2)) = []"
                using cc
                by (intro "1.IH" [OF c1 n o short same_load seen2])
                   (simp_all add: page_done_def st)
              then show ?thesis unfolding w2eq .
            qed
          qed
        qed
      qed
    qed
  qed
qed

lemma load_summary_marked:
  "load_summary_from_file (snd (mark_papers_as_seen E d (w\<lparr>requests := x\<rparr>) ps)) k
     = load_summary_from_file w k"
  by (simp add: load_summary_from_file_def mark_papers_as_seen_def save_seen_papers_def
      summary_filepath_not_ledger split: prod.splits option.splits)

lemma load_or_convert_marked:
  "load_or_convert (snd (mark_papers_as_seen E d (w\<lparr>requests := x\<rparr>) ps)) r
     = load_or_convert w r"
  by (simp add: load_or_convert_def load_summary_marked)

lemma is_seen_requests:
  "is_seen (w\<lparr>requests := x\<rparr>) k = is_seen w k"
  by (simp add: is_seen_def)

lemma requests_finish:
  "requests (snd (finish E now w out)) = requests w @ issued (snd out)"
proof (cases "fst out")
  case (Some e)
  then show ?thesis by (simp add: finish_def Let_def)
next
  case None
  let ?w1 = "w\<lparr>requests := requests w @ issued (snd out)\<rparr>"
  obtain a w2 where m: "mark_papers_as_seen E now ?w1 (found_papers (snd out)) = (a, w2)"
    by (cases "mark_papers_as_seen E now ?w1 (found_papers (snd out))") auto
  with requests_marked [of E now ?w1 "found_papers (snd out)"]
  have "requests w2 = requests w @ issued (snd out)" by simp
  with None m show ?thesis by (cases a) (simp_all add: finish_def Let_def)
qed

lemma finish_empty:
  "fst out = None \<Longrightarrow> found_papers (snd out) = [] \<Longrightarrow> fst (finish E now w out) = Inr []"
  by (simp add: finish_def mark_papers_as_seen_def Let_def)

lemmas run_simps =
  search_papers_def finish_def while_loop.simps init_state_def loop_cond_def loop_body_def
  is_seen_def dict_has_def in_ledger_def load_or_convert_def load_summary_from_file_def
  from_dict_to_dict mark_papers_as_seen_def save_seen_papers_def Let_def

subsection \<open>Reuse of cached records\<close>

text \<open>
  Claim C1. During discovery a cached record is to be reused only when it is enriched, so a
  cached record whose summary is only whitespace is not to be reused. The code tests the
  truth value of \<^verbatim>\<open>summary\<close> without trimming: with a summary file of three spaces for
  the first paper, \<^verbatim>\<open>search_papers\<close> returns the cached record, which is not enriched,
  and not the fresh conversion.
\<close>

theorem blank_cached_summary_reused:
  "fst (search_papers (service ([paper_a], None) ([], None)) ''t1'' world_blank
         None (Some [''cs.AI'']) 10 20 1) = Inr [blank_a]
   \<and> summary blank_a = JStr ''   ''
   \<and> \<not> enriched blank_a
   \<and> convert_result paper_a = Inr fresh_a
   \<and> fresh_a \<noteq> blank_a"
proof -
  have "fst (search_papers (service ([paper_a], None) ([], None)) ''t1'' world_blank
         None (Some [''cs.AI'']) 10 20 1) = Inr [blank_a]"
    by (simp add: run_simps query_cs_AI service_def world_blank_def empty_world_def id_a path_a
        blank_a_def fresh_a_def)
  moreover have "fresh_a \<noteq> blank_a"
    by (simp add: blank_a_def fresh_a_def)
  moreover have "summary blank_a = JStr ''   ''"
    by (simp add: blank_a_def)
  ultimately show ?thesis
    using not_enriched_blank_a convert_a by simp
qed

subsection \<open>The bound on stalled pages\<close>

text \<open>
  Claim C2. Whatever \<^verbatim>\<open>max_results\<close> is, when every page that the remote service
  returns holds only papers of the ledger, \<^verbatim>\<open>search_papers\<close> sends at most three page
  requests and returns no paper. In a pass that goes on to the next page, the counter of
  stalled pages is raised by one when the page gave no new paper and is reset to 0
  otherwise. From any state of the loop, when every page holds only papers of the ledger
  or papers accepted earlier in the run, the loop sends at most as many further requests
  as the counter lacks to three, and accepts nothing more.
\<close>

theorem stall_bound:
  assumes "\<forall>off pg. list_of (client_results E
              (Search (construct_query terms cats) [] (Some rs) off)) = Inr pg
            \<longrightarrow> (\<forall>r \<in> set pg. is_seen w (arxiv_id_of r))"
  shows "length (requests (snd (search_papers E now w terms cats mx rs t)))
           \<le> length (requests w) + 3
       \<and> (rs \<noteq> 0 \<longrightarrow> fst (search_papers E now w terms cats mx rs t) = Inr [])
       \<and> (\<forall>s s'. loop_body E w q mx rs t s = Next s' \<longrightarrow>
            consecutive_seen_requests s'
              = (if found_papers s' = found_papers s
                 then consecutive_seen_requests s + 1 else 0))
       \<and> (\<forall>s. (\<forall>off pg. list_of (client_results E (Search q [] (Some rs) off)) = Inr pg
                  \<longrightarrow> (\<forall>r \<in> set pg. is_seen w (arxiv_id_of r)
                                          \<or> arxiv_id_of r \<in> seen_in_this_run s))
            \<longrightarrow> length (issued (snd (while_loop E w q mx rs t s)))
                  \<le> length (issued s) + (3 - consecutive_seen_requests s)
                \<and> found_papers (snd (while_loop E w q mx rs t s)) = found_papers s)"
proof -
  let ?q = "construct_query terms cats"
  let ?out = "while_loop E w ?q mx rs t init_state"
  have "length (issued (snd ?out)) \<le> length (issued init_state)
            + (3 - consecutive_seen_requests init_state)
      \<and> found_papers (snd ?out) = found_papers init_state"
    using assms by (intro stall_from) blast
  then have out: "length (issued (snd ?out)) \<le> 3" "found_papers (snd ?out) = []"
    by (simp_all add: init_state_def)
  have a: "length (requests (snd (search_papers E now w terms cats mx rs t)))
           \<le> length (requests w) + 3"
    using out(1) by (simp add: search_papers_def Let_def requests_finish)
  have b: "rs \<noteq> 0 \<longrightarrow> fst (search_papers E now w terms cats mx rs t) = Inr []"
  proof
    assume "rs \<noteq> 0"
    then have "fst ?out = None"
      using while_loop_exn [of E w ?q mx rs t init_state] by (cases "fst ?out") auto
    with out(2) show "fst (search_papers E now w terms cats mx rs t) = Inr []"
      by (simp add: search_papers_def Let_def finish_empty)
  qed
  have c: "\<forall>s. (\<forall>off pg. list_of (client_results E (Search q [] (Some rs) off)) = Inr pg
                  \<longrightarrow> (\<forall>r \<in> set pg. is_seen w (arxiv_id_of r)
                                          \<or> arxiv_id_of r \<in> seen_in_this_run s))
            \<longrightarrow> length (issued (snd (while_loop E w q mx rs t s)))
                  \<le> length (issued s) + (3 - consecutive_seen_requests s)
                \<and> found_papers (snd (while_loop E w q mx rs t s)) = found_papers s"
    by (intro allI impI stall_from) blast
  from a b c show ?thesis
    by (simp add: loop_body_counter)
qed

theorem stall_bound_witness:
  "length (requests (snd (search_papers (service ([paper_a], None) ([paper_a], None))
        ''t1'' world_seen_a None (Some [''cs.AI'']) 10 20 1)))
     \<le> length (requests world_seen_a) + 3
   \<and> fst (search_papers (service ([paper_a], None) ([paper_a], None))
        ''t1'' world_seen_a None (Some [''cs.AI'']) 10 20 1) = Inr []
   \<and> requests (snd (search_papers (service ([paper_a], None) ([paper_a], None))
        ''t1'' world_seen_a None (Some [''cs.AI'']) 10 20 1))
     = [Search ''cat:cs.AI'' [] (Some 20) 0, Search ''cat:cs.AI'' [] (Some 20) 20,
        Search ''cat:cs.AI'' [] (Some 20) 40]"
proof -
  let ?E = "service ([paper_a], None) ([paper_a], None)"
  have h: "\<forall>off pg. list_of (client_results ?E
              (Search (construct_query None (Some [''cs.AI''])) [] (Some 20) off)) = Inr pg
            \<longrightarrow> (\<forall>r \<in> set pg. is_seen world_seen_a (arxiv_id_of r))"
    by (auto simp: service_def world_seen_a_def is_seen_def dict_has_def id_a split: if_splits)
  have e: "requests (snd (search_papers ?E ''t1'' world_seen_a None (Some [''cs.AI'']) 10 20 1))
     = [Search ''cat:cs.AI'' [] (Some 20) 0, Search ''cat:cs.AI'' [] (Some 20) 20,
        Search ''cat:cs.AI'' [] (Some 20) 40]"
    by (simp add: run_simps query_cs_AI service_def world_seen_a_def empty_world_def id_a)
  from stall_bound [OF h, of "''t1''" 10 1] e show ?thesis
    by simp
qed

subsection \<open>Deduplication\<close>

text \<open>
  Claim C3, as stated, fails. The loop removes duplicates by the id of the remote result,
  but a record taken from a summary file carries the id stored in the file. With a summary
  file for the first paper that holds the record of the second paper, a page with both
  papers makes \<^verbatim>\<open>search_papers\<close> return two records with the same id; and when the
  second paper is in the ledger already, a page with the first paper makes it return a
  record whose id is in the ledger.
\<close>

theorem returned_ids_counterexample:
  "fst (search_papers (service ([paper_a, paper_b], None) ([], None)) ''t1'' world_stray
          None (Some [''cs.AI'']) 10 20 1) = Inr [stray_b, fresh_b]
   \<and> id' stray_b = id' fresh_b
   \<and> \<not> distinct (map id' [stray_b, fresh_b])
   \<and> fst (search_papers (service ([paper_a], None) ([], None)) ''t1'' world_stray_seen_b
            None (Some [''cs.AI'']) 10 20 1) = Inr [stray_b]
   \<and> in_ledger world_stray_seen_b (id' stray_b)"
proof -
  have a: "fst (search_papers (service ([paper_a, paper_b], None) ([], None)) ''t1'' world_stray
          None (Some [''cs.AI'']) 10 20 1) = Inr [stray_b, fresh_b]"
    by (simp add: run_simps query_cs_AI service_def world_stray_def empty_world_def id_a id_b
        path_a path_b convert_b stray_b_def fresh_b_def)
  have b: "fst (search_papers (service ([paper_a], None) ([], None)) ''t1'' world_stray_seen_b
            None (Some [''cs.AI'']) 10 20 1) = Inr [stray_b]"
    by (simp add: run_simps query_cs_AI service_def world_stray_seen_b_def world_stray_def
        empty_world_def id_a path_a stray_b_def fresh_b_def)
  have c: "id' stray_b = id' fresh_b"
    by (simp add: stray_b_def)
  have d: "in_ledger world_stray_seen_b (id' stray_b)"
    by (simp add: in_ledger_def dict_has_def world_stray_seen_b_def stray_b_def fresh_b_def)
  from a b c d show ?thesis by simp
qed

text \<open>
  Claim C3, amended. When every summary file whose record has a true summary holds, as
  the id of that record, the id the file is named after (which is how
  \<^verbatim>\<open>save_summary_to_file\<close> writes a record with a string id), the records that one call
  of \<^verbatim>\<open>search_papers\<close> returns have pairwise distinct ids, and none of these ids was a
  key of \<^verbatim>\<open>seen_papers\<close> when the call started.
\<close>

theorem returned_ids_distinct_and_new:
  assumes "cache_consistent w"
    and "search_papers E now w terms cats mx rs t = (Inr res, w')"
  shows "distinct (map id' res) \<and> (\<forall>p \<in> set res. \<not> in_ledger w (id' p))"
proof (cases "construct_query terms cats = []")
  case True
  with assms(2) show ?thesis by (simp add: search_papers_def)
next
  case False
  let ?out = "while_loop E w (construct_query terms cats) mx rs t init_state"
  have "run_inv w (found_papers init_state) (seen_in_this_run init_state)"
    by (simp add: run_inv_def init_state_def)
  from while_loop_inv [OF assms(1) this, of E "construct_query terms cats" mx rs t]
  have inv: "run_inv w (found_papers (snd ?out)) (seen_in_this_run (snd ?out))" .
  from assms(2) False have "res = found_papers (snd ?out)"
    by (auto simp: search_papers_def finish_def Let_def split: option.splits prod.splits)
  with inv show ?thesis by (simp add: run_inv_def)
qed

theorem returned_ids_distinct_and_new_witness:
  "cache_consistent world_cached_a
   \<and> fst (search_papers (service ([paper_a, paper_b, paper_a], None) ([], None)) ''t1''
            world_cached_a None (Some [''cs.AI'']) 10 20 1) = Inr [cached_a, fresh_b]
   \<and> distinct (map id' [cached_a, fresh_b])
   \<and> \<not> in_ledger world_cached_a (id' cached_a)
   \<and> \<not> in_ledger world_cached_a (id' fresh_b)"
proof -
  let ?E = "service ([paper_a, paper_b, paper_a], None) ([], None)"
  let ?r = "search_papers ?E ''t1'' world_cached_a None (Some [''cs.AI'']) 10 20 1"
  have f: "fst ?r = Inr [cached_a, fresh_b]"
    by (simp add: run_simps query_cs_AI service_def world_cached_a_def empty_world_def id_a id_b
        path_a path_b convert_b cached_a_def fresh_a_def id_fresh_b)
  then have r: "?r = (Inr [cached_a, fresh_b], snd ?r)"
    by (metis prod.collapse)
  from returned_ids_distinct_and_new [OF cache_consistent_cached_a r] f
    cache_consistent_cached_a
  show ?thesis by simp
qed

subsection \<open>A failed page fetch\<close>




subsection \<open>The empty query\<close>

text \<open>
  Claim C5. With neither search terms nor categories the query is empty, and
  \<^verbatim>\<open>search_papers\<close> returns the empty list at once: the state, with its list of
  requests, is unchanged. \<^verbatim>\<open>search\<close> has no such guard: it sends the empty query to
  the remote service and returns what the service answers.
\<close>

theorem search_contacts_remote_on_empty_query:
  "search_papers E current_date w None None max_results request_size timeout_seconds = (Inr [], w)
   \<and> search_papers E current_date w (Some []) (Some []) max_results request_size timeout_seconds
       = (Inr [], w)
   \<and> search_query PyNone PyNone = []
   \<and> fst (search (service ([paper_a], None) ([], None)) ''t1'' empty_world PyNone PyNone 10)
       = Inr [fresh_a]
   \<and> requests (snd (search (service ([paper_a], None) ([], None)) ''t1'' empty_world
                       PyNone PyNone 10))
       = [Search [] [] (Some 100) 0]"
  by (simp add: search_papers_def construct_query_def search_query_def search_def
      service_def empty_world_def is_seen_def dict_has_def load_or_convert_def
      load_summary_from_file_def id_a convert_a id_fresh_a mark_papers_as_seen_def
      save_seen_papers_def Let_def)

subsection \<open>The two query builders\<close>

text \<open>
  Claim C6. For an input with a search term of more than one word, the query that
  \<^verbatim>\<open>search_papers\<close> builds through \<^verbatim>\<open>_construct_query\<close> differs from the query that
  \<^verbatim>\<open>search\<close> builds: the first wraps the phrase in \<^verbatim>\<open>%22\<close>, the second in literal
  quotation marks (and, for a list of terms, in parentheses as well). The two builders
  are not the same function.
\<close>

theorem query_builders_disagree:
  "construct_query (Some [''mechanistic interpretability'']) (Some [''cs.AI''])
     = ''cat:cs.AI AND %22mechanistic interpretability%22''
   \<and> search_query (PyList [''mechanistic interpretability'']) (PyList [''cs.AI''])
     = ''cat:cs.AI AND ('' @ dquote @ ''mechanistic interpretability'' @ dquote @ '')''
   \<and> search_query (PyStr ''mechanistic interpretability'') (PyList [''cs.AI''])
     = ''cat:cs.AI AND '' @ dquote @ ''mechanistic interpretability'' @ dquote
   \<and> construct_query (Some [''mechanistic interpretability'']) (Some [''cs.AI''])
     \<noteq> search_query (PyList [''mechanistic interpretability'']) (PyList [''cs.AI''])
   \<and> construct_query (Some [''mechanistic interpretability'']) (Some [''cs.AI''])
     \<noteq> search_query (PyStr ''mechanistic interpretability'') (PyList [''cs.AI''])"
  by (simp add: construct_query_def search_query_def dquote_def)

subsection \<open>Calling \<^verbatim>\<open>search_papers\<close> twice\<close>

text \<open>
  Claim C7, as stated, fails, in two ways. The quota \<^verbatim>\<open>max_results\<close> cuts the first
  call short, and the second call goes on where the first one stopped: with two new papers
  on the first page and \<^verbatim>\<open>max_results = 1\<close>, the first call returns the first paper
  and the second call, with the same arguments and the same answers of the remote service,
  returns the second paper. And a record taken from a summary file is marked under the id
  stored in the file, while the loop tests the id of the remote result: with a summary file
  for the first paper that holds the record of the second paper, the first call returns
  that record, fewer than \<^verbatim>\<open>max_results\<close>, and the second call returns it again.
\<close>

theorem second_call_counterexample:
  "fst (search_papers (service ([paper_a, paper_b], None) ([], None)) ''t1'' empty_world
          None (Some [''cs.AI'']) 1 20 1) = Inr [fresh_a]
   \<and> fst (search_papers (service ([paper_a, paper_b], None) ([], None)) ''t2''
            (snd (search_papers (service ([paper_a, paper_b], None) ([], None)) ''t1''
                    empty_world None (Some [''cs.AI'']) 1 20 1))
            None (Some [''cs.AI'']) 1 20 1) = Inr [fresh_b]
   \<and> [fresh_b] \<noteq> []
   \<and> fst (search_papers (service ([paper_a], None) ([], None)) ''t1'' world_stray
            None (Some [''cs.AI'']) 10 20 1) = Inr [stray_b]
   \<and> int (length [stray_b]) < 10
   \<and> fst (search_papers (service ([paper_a], None) ([], None)) ''t2''
            (snd (search_papers (service ([paper_a], None) ([], None)) ''t1''
                    world_stray None (Some [''cs.AI'']) 10 20 1))
            None (Some [''cs.AI'']) 10 20 1) = Inr [stray_b]
   \<and> [stray_b] \<noteq> []"
proof -
  let ?E = "service ([paper_a, paper_b], None) ([], None)"
  let ?F = "service ([paper_a], None) ([], None)"
  have a: "search_papers ?E ''t1'' empty_world None (Some [''cs.AI'']) 1 20 1
      = (Inr [fresh_a],
         \<lparr> seen_papers = [(KStr ''2401.00001v1'', JStr ''t1'')],
           disk = [SEEN_PAPERS_FILE \<mapsto> Json (JObj [(''2401.00001v1'', JStr ''t1'')])],
           requests = [Search ''cat:cs.AI'' [] (Some 20) 0] \<rparr>)"
    by (simp add: run_simps query_cs_AI service_def empty_world_def id_a convert_a id_fresh_a
        dump_dict_def)
  have b: "fst (search_papers ?E ''t2''
         \<lparr> seen_papers = [(KStr ''2401.00001v1'', JStr ''t1'')],
           disk = [SEEN_PAPERS_FILE \<mapsto> Json (JObj [(''2401.00001v1'', JStr ''t1'')])],
           requests = [Search ''cat:cs.AI'' [] (Some 20) 0] \<rparr>
         None (Some [''cs.AI'']) 1 20 1) = Inr [fresh_b]"
    by (simp add: run_simps query_cs_AI service_def id_a id_b convert_b id_fresh_b
        SEEN_PAPERS_FILE_def path_b)
  have c: "search_papers ?F ''t1'' world_stray None (Some [''cs.AI'']) 10 20 1
      = (Inr [stray_b],
         \<lparr> seen_papers = [(KStr ''2401.00002v1'', JStr ''t1'')],
           disk = [summary_filepath ''2401.00001v1'' \<mapsto> Json (to_dict stray_b),
                   SEEN_PAPERS_FILE \<mapsto> Json (JObj [(''2401.00002v1'', JStr ''t1'')])],
           requests = [Search ''cat:cs.AI'' [] (Some 20) 0, Search ''cat:cs.AI'' [] (Some 20) 20]
         \<rparr>)"
    by (simp add: run_simps query_cs_AI service_def world_stray_def empty_world_def id_a path_a
        stray_b_def fresh_b_def dump_dict_def)
  have d: "fst (search_papers ?F ''t2''
         \<lparr> seen_papers = [(KStr ''2401.00002v1'', JStr ''t1'')],
           disk = [summary_filepath ''2401.00001v1'' \<mapsto> Json (to_dict stray_b),
                   SEEN_PAPERS_FILE \<mapsto> Json (JObj [(''2401.00002v1'', JStr ''t1'')])],
           requests = [Search ''cat:cs.AI'' [] (Some 20) 0, Search ''cat:cs.AI'' [] (Some 20) 20]
         \<rparr>
         None (Some [''cs.AI'']) 10 20 1) = Inr [stray_b]"
    by (simp add: run_simps query_cs_AI service_def id_a path_a SEEN_PAPERS_FILE_def
        stray_b_def fresh_b_def)
  from a b c d show ?thesis by simp
qed

text \<open>
  Claim C7, amended. Whenever a call of \<^verbatim>\<open>search_papers\<close> returns, the id of every
  record it returns is a key of \<^verbatim>\<open>seen_papers\<close> when it returns. When moreover the
  call returned fewer than \<^verbatim>\<open>max_results\<close> records and every summary file whose
  record has a true summary holds, as the id of that record, the id the file is named
  after, then a second call with the same arguments, the same answers of the remote
  service and the state the first call left returns the empty list.
\<close>

theorem second_call_empty:
  assumes "search_papers E now1 w terms cats mx rs t = (Inr res1, w1)"
  shows "(\<forall>p \<in> set res1. in_ledger w1 (id' p))
       \<and> (cache_consistent w \<and> int (length res1) < mx
            \<longrightarrow> fst (search_papers E now2 w1 terms cats mx rs t) = Inr [])"
proof (cases "construct_query terms cats = []")
  case True
  with assms show ?thesis by (auto simp: search_papers_def)
next
  case False
  let ?q = "construct_query terms cats"
  let ?out = "while_loop E w ?q mx rs t init_state"
  let ?sF = "snd ?out"
  let ?w0 = "w\<lparr>requests := requests w @ issued ?sF\<rparr>"
  from assms False have none: "fst ?out = None"
    and res: "res1 = found_papers ?sF"
    and m: "mark_papers_as_seen E now1 ?w0 (found_papers ?sF) = (None, w1)"
    by (auto simp: search_papers_def finish_def Let_def split: option.splits prod.splits)
  from none have out: "?out = (None, ?sF)" by (metis prod.collapse)
  have a: "\<forall>p \<in> set res1. in_ledger w1 (id' p)"
    using in_ledger_marked [OF m] res by blast
  have b: "cache_consistent w \<and> int (length res1) < mx
      \<longrightarrow> fst (search_papers E now2 w1 terms cats mx rs t) = Inr []"
  proof
    assume h: "cache_consistent w \<and> int (length res1) < mx"
    have w1: "w1 = snd (mark_papers_as_seen E now1 ?w0 (found_papers ?sF))"
      by (simp add: m)
    have "run_inv w (found_papers init_state) (seen_in_this_run init_state)"
      by (simp add: run_inv_def init_state_def)
    with h have "run_inv w (found_papers ?sF) (seen_in_this_run ?sF)"
      by (intro while_loop_inv) simp_all
    then have ids: "id' ` set (found_papers ?sF) = JStr ` seen_in_this_run ?sF"
      by (simp add: run_inv_def)
    have same: "\<forall>r. load_or_convert w1 r = load_or_convert w r"
      by (simp add: w1 load_or_convert_marked)
    have seen: "\<forall>k. is_seen w1 k = (is_seen w k \<or> k \<in> seen_in_this_run ?sF)"
      by (auto simp: is_seen_marked [OF m] is_seen_requests ids)
    have short: "int (length (found_papers ?sF)) < mx"
      using h res by simp
    have "fst (while_loop E w1 ?q mx rs t init_state) = None
        \<and> found_papers (snd (while_loop E w1 ?q mx rs t init_state)) = []"
      by (rule rerun_empty [OF out short same seen]) (simp_all add: init_state_def)
    then show "fst (search_papers E now2 w1 terms cats mx rs t) = Inr []"
      using False by (simp add: search_papers_def Let_def finish_empty)
  qed
  from a b show ?thesis by simp
qed

theorem second_call_empty_witness:
  "cache_consistent world_cached_a
   \<and> fst (search_papers (service ([paper_a, paper_b], None) ([], None)) ''t1'' world_cached_a
            None (Some [''cs.AI'']) 10 20 1) = Inr [cached_a, fresh_b]
   \<and> int (length [cached_a, fresh_b]) < 10
   \<and> in_ledger (snd (search_papers (service ([paper_a, paper_b], None) ([], None)) ''t1''
                       world_cached_a None (Some [''cs.AI'']) 10 20 1)) (id' cached_a)
   \<and> in_ledger (snd (search_papers (service ([paper_a, paper_b], None) ([], None)) ''t1''
                       world_cached_a None (Some [''cs.AI'']) 10 20 1)) (id' fresh_b)
   \<and> fst (search_papers (service ([paper_a, paper_b], None) ([], None)) ''t2''
            (snd (search_papers (service ([paper_a, paper_b], None) ([], None)) ''t1''
                    world_cached_a None (Some [''cs.AI'']) 10 20 1))
            None (Some [''cs.AI'']) 10 20 1) = Inr []"
proof -
  let ?E = "service ([paper_a, paper_b], None) ([], None)"
  let ?r = "search_papers ?E ''t1'' world_cached_a None (Some [''cs.AI'']) 10 20 1"
  have f: "fst ?r = Inr [cached_a, fresh_b]"
    by (simp add: run_simps query_cs_AI service_def world_cached_a_def empty_world_def id_a id_b
        path_a path_b convert_b cached_a_def fresh_a_def id_fresh_b)
  then have r: "?r = (Inr [cached_a, fresh_b], snd ?r)" by (metis prod.collapse)
  have l: "int (length [cached_a, fresh_b]) < 10" by simp
  from second_call_empty [OF r, of "''t2''"] f l cache_consistent_cached_a
  show ?thesis by simp
qed

subsection \<open>Summary files\<close>



subsection \<open>Conversion\<close>

text \<open>
  Claim C9. For every result that \<^verbatim>\<open>_convert_result\<close> converts, the \<^verbatim>\<open>keywords\<close> field
  of the record is the very value of its \<^verbatim>\<open>categories\<close> field, the categories of the
  result: keywords are never filled on their own.
\<close>

theorem convert_result_keywords:
  "convert_result r = Inr p \<Longrightarrow>
     keywords' p = categories p \<and> categories p = str_list (categories_r r)"
  by (auto simp: convert_result_def Let_def split: option.splits)

theorem convert_result_keywords_witness:
  "convert_result paper_a = Inr fresh_a
   \<and> keywords' fresh_a = categories fresh_a
   \<and> categories fresh_a = str_list (categories_r paper_a)"
  using convert_result_keywords [OF convert_a] convert_a by simp

subsection \<open>\<^verbatim>\<open>get_pdf_url\<close>\<close>

text \<open>
  Claim C10, as stated, fails twice. A record whose \<^verbatim>\<open>pdf_url\<close> is the empty string has a
  PDF URL that is not null, yet \<^verbatim>\<open>get_pdf_url\<close> raises \<^verbatim>\<open>ValueError\<close> for it. And
  \<^verbatim>\<open>get_pdf_url\<close> is not the only operation that raises: \<^verbatim>\<open>get_paper_by_id\<close> and
  \<^verbatim>\<open>search\<close> let an exception of the remote service through, and
  \<^verbatim>\<open>get_paper_by_id\<close> raises \<^verbatim>\<open>UnicodeDecodeError\<close> for a summary file that is not
  text.
\<close>

theorem get_pdf_url_counterexample:
  "fst (get_paper_by_id (service ([], None) ([], None)) ''t1'' world_nourl ''2401.00001v1'')
     = Inr (Some nourl_a)
   \<and> pdf_url nourl_a = JStr []
   \<and> pdf_url nourl_a \<noteq> JNull
   \<and> fst (get_pdf_url (service ([], None) ([], None)) ''t1'' world_nourl ''2401.00001v1'')
     = Inl ValueError
   \<and> fst (get_paper_by_id
            (service ([], Some (RemoteError ''connection refused''))
                     ([], Some (RemoteError ''connection refused'')))
            ''t1'' empty_world ''2401.00001v1'')
     = Inl (RemoteError ''connection refused'')
   \<and> fst (search
            (service ([], Some (RemoteError ''connection refused''))
                     ([], Some (RemoteError ''connection refused'')))
            ''t1'' empty_world PyNone (PyList [''cs.AI'']) 10)
     = Inl (RemoteError ''connection refused'')
   \<and> fst (get_paper_by_id (service ([], None) ([], None)) ''t1'' world_nottext
            ''2401.00001v1'')
     = Inl UnicodeDecodeError"
  by (simp add: get_pdf_url_def get_paper_by_id_def load_summary_from_file_def world_nourl_def
      world_nottext_def empty_world_def from_dict_to_dict nourl_a_def cached_a_def fresh_a_def
      service_def search_def search_query_def Let_def mark_one_def is_seen_def dict_has_def
      save_seen_papers_def)

text \<open>
  Claim C10, amended. \<^verbatim>\<open>get_pdf_url\<close> returns the \<^verbatim>\<open>pdf_url\<close> of the record when
  \<^verbatim>\<open>get_paper_by_id\<close> yields a record whose \<^verbatim>\<open>pdf_url\<close> is true in Python's sense
  (for a string: not empty); it raises \<^verbatim>\<open>ValueError\<close> when the paper is not found or
  the \<^verbatim>\<open>pdf_url\<close> of the record is not true (null or empty); an exception that leaves
  \<^verbatim>\<open>get_paper_by_id\<close> leaves \<^verbatim>\<open>get_pdf_url\<close> unchanged. It is not the only operation
  that raises. \<^verbatim>\<open>get_paper_by_id\<close> raises what reading the summary file raises; when
  there is no summary file to reuse it asks the remote service, raises what the service
  raises before its first result, and returns \<^verbatim>\<open>None\<close> when the service has no
  result. \<^verbatim>\<open>search\<close> raises what the remote service raises before its first result.
\<close>

theorem get_pdf_url_outcomes:
  "(get_paper_by_id E now w pid = (Inr (Some p), w') \<and> truthy (pdf_url p)
      \<longrightarrow> get_pdf_url E now w pid = (Inr (pdf_url p), w'))
   \<and> (get_paper_by_id E now w pid = (Inr None, w')
      \<longrightarrow> get_pdf_url E now w pid = (Inl ValueError, w'))
   \<and> (get_paper_by_id E now w pid = (Inr (Some p), w') \<and> \<not> truthy (pdf_url p)
      \<longrightarrow> get_pdf_url E now w pid = (Inl ValueError, w'))
   \<and> (get_paper_by_id E now w pid = (Inl e, w')
      \<longrightarrow> get_pdf_url E now w pid = (Inl e, w'))
   \<and> (load_summary_from_file w pid = Inl e
      \<longrightarrow> fst (get_paper_by_id E now w pid) = Inl e)
   \<and> ((load_summary_from_file w pid = Inr None
         \<or> (\<exists>c. load_summary_from_file w pid = Inr (Some c) \<and> \<not> truthy (summary c)))
        \<and> next_of (client_results E (Search [] [pid] None 0)) = Inl e
      \<longrightarrow> fst (get_paper_by_id E now w pid) = Inl e)
   \<and> ((load_summary_from_file w pid = Inr None
         \<or> (\<exists>c. load_summary_from_file w pid = Inr (Some c) \<and> \<not> truthy (summary c)))
        \<and> next_of (client_results E (Search [] [pid] None 0)) = Inr None
      \<longrightarrow> fst (get_paper_by_id E now w pid) = Inr None)
   \<and> (client_results E (Search (search_query terms cats) [] (Some 100) 0) = ([], Some e)
      \<longrightarrow> fst (search E now w terms cats mx) = Inl e)"
proof -
  have 1: "get_paper_by_id E now w pid = (Inr (Some p), w') \<and> truthy (pdf_url p)
      \<longrightarrow> get_pdf_url E now w pid = (Inr (pdf_url p), w')"
    by (simp add: get_pdf_url_def)
  have 2: "get_paper_by_id E now w pid = (Inr None, w')
      \<longrightarrow> get_pdf_url E now w pid = (Inl ValueError, w')"
    by (simp add: get_pdf_url_def)
  have 3: "get_paper_by_id E now w pid = (Inr (Some p), w') \<and> \<not> truthy (pdf_url p)
      \<longrightarrow> get_pdf_url E now w pid = (Inl ValueError, w')"
    by (simp add: get_pdf_url_def)
  have 4: "get_paper_by_id E now w pid = (Inl e, w')
      \<longrightarrow> get_pdf_url E now w pid = (Inl e, w')"
    by (simp add: get_pdf_url_def)
  have 5: "load_summary_from_file w pid = Inl e
      \<longrightarrow> fst (get_paper_by_id E now w pid) = Inl e"
    by (simp add: get_paper_by_id_def)
  have 6: "(load_summary_from_file w pid = Inr None
         \<or> (\<exists>c. load_summary_from_file w pid = Inr (Some c) \<and> \<not> truthy (summary c)))
        \<and> next_of (client_results E (Search [] [pid] None 0)) = Inl e
      \<longrightarrow> fst (get_paper_by_id E now w pid) = Inl e"
    by (auto simp: get_paper_by_id_def Let_def)
  have 7: "(load_summary_from_file w pid = Inr None
         \<or> (\<exists>c. load_summary_from_file w pid = Inr (Some c) \<and> \<not> truthy (summary c)))
        \<and> next_of (client_results E (Search [] [pid] None 0)) = Inr None
      \<longrightarrow> fst (get_paper_by_id E now w pid) = Inr None"
    by (auto simp: get_paper_by_id_def Let_def)
  have 8: "client_results E (Search (search_query terms cats) [] (Some 100) 0) = ([], Some e)
      \<longrightarrow> fst (search E now w terms cats mx) = Inl e"
    by (simp add: search_def Let_def)
  from 1 2 3 4 5 6 7 8 show ?thesis
    by blast
qed

theorem get_pdf_url_outcomes_witness:
  "fst (get_paper_by_id (service ([], None) ([], None)) ''t1'' world_cached_a ''2401.00001v1'')
     = Inr (Some cached_a)
   \<and> truthy (pdf_url cached_a)
   \<and> fst (get_pdf_url (service ([], None) ([], None)) ''t1'' world_cached_a ''2401.00001v1'')
     = Inr (JStr ''https://arxiv.org/pdf/2401.00001v1'')
   \<and> load_summary_from_file empty_world ''2401.00009v1'' = Inr None
   \<and> next_of (client_results (service ([], None) ([], None))
        (Search [] [''2401.00009v1''] None 0)) = Inr None
   \<and> fst (get_paper_by_id (service ([], None) ([], None)) ''t1'' empty_world ''2401.00009v1'')
     = Inr None
   \<and> fst (get_pdf_url (service ([], None) ([], None)) ''t1'' empty_world ''2401.00009v1'')
     = Inl ValueError"
proof -
  let ?E = "service ([], None) ([], None)"
  let ?g = "get_paper_by_id ?E ''t1'' world_cached_a ''2401.00001v1''"
  let ?h = "get_paper_by_id ?E ''t1'' empty_world ''2401.00009v1''"
  have g: "fst ?g = Inr (Some cached_a)"
    by (simp add: get_paper_by_id_def load_summary_from_file_def world_cached_a_def
        empty_world_def from_dict_to_dict cached_a_def)
  then have g': "?g = (Inr (Some cached_a), snd ?g)" by (metis prod.collapse)
  have u: "truthy (pdf_url cached_a)"
    "pdf_url cached_a = JStr ''https://arxiv.org/pdf/2401.00001v1''"
    by (simp_all add: cached_a_def fresh_a_def)
  have l: "load_summary_from_file empty_world ''2401.00009v1'' = Inr None"
    by (simp add: load_summary_from_file_def empty_world_def)
  have n: "next_of (client_results ?E (Search [] [''2401.00009v1''] None 0)) = Inr None"
    by (simp add: service_def)
  note t = get_pdf_url_outcomes [of ?E "''t1''" world_cached_a "''2401.00001v1''" cached_a
      "snd ?g"]
  note t' = get_pdf_url_outcomes [of ?E "''t1''" empty_world "''2401.00009v1''" _ "snd ?h"]
  from t g' u have a: "fst (get_pdf_url ?E ''t1'' world_cached_a ''2401.00001v1'')
     = Inr (JStr ''https://arxiv.org/pdf/2401.00001v1'')"
    by simp
  from t' l n have h: "fst ?h = Inr None"
    by simp
  then have h': "?h = (Inr None, snd ?h)" by (metis prod.collapse)
  from t' h' have b: "fst (get_pdf_url ?E ''t1'' empty_world ''2401.00009v1'') = Inl ValueError"
    by simp
  from g u a l n h b show ?thesis by simp
qed

end
